theory Spec2Isabelle
  imports Complex_Main
begin

section \<open>JavaScript numbers\<close>

text \<open>
  A JavaScript \<^verbatim>\<open>number\<close> is an IEEE 754 binary64 value: a finite value, one of the
  two infinities, or NaN. A finite value is carried as the real number it denotes. An
  arithmetic operation on finite values takes the exact real result and rounds it to the
  nearest binary64 value, ties to even, with gradual underflow and with overflow to an
  infinity (\<open>rnd\<close> below). The sign of zero is not modelled: the only zero divisor of
  the program is a difference \<^verbatim>\<open>a - a\<close>, which is the positive zero, so a positive
  dividend over zero is \<open>PosInf\<close>.
\<close>

datatype number = Fin real | PosInf | NegInf | NaN

subsection \<open>Rounding to binary64\<close>

text \<open>
  The binade of a positive real: the integer \<open>e\<close> with \<open>2^e \<le> r < 2^(e + 1)\<close>, found by
  halving from above 1 and doubling from below 1, kept between the exponent of the
  subnormal numbers, -1022, and 1024.
\<close>

fun binade_up :: "nat \<Rightarrow> real \<Rightarrow> int" where
  "binade_up 0 r = 0"
| "binade_up (Suc n) r = (if r < 2 then 0 else binade_up n (r / 2) + 1)"

fun binade_down :: "nat \<Rightarrow> real \<Rightarrow> int" where
  "binade_down 0 r = 0"
| "binade_down (Suc n) r = (if 1 \<le> r then 0 else binade_down n (r * 2) - 1)"

definition exponent :: "real \<Rightarrow> int" where
  "exponent r = (if 1 \<le> \<bar>r\<bar> then binade_up 1024 \<bar>r\<bar> else binade_down 1022 \<bar>r\<bar>)"

text \<open>The nearest integer, a tie going to the even one.\<close>

definition round_even :: "real \<Rightarrow> int" where
  "round_even q =
     (if q - of_int \<lfloor>q\<rfloor> < 1 / 2 then \<lfloor>q\<rfloor>
      else if 1 / 2 < q - of_int \<lfloor>q\<rfloor> then \<lfloor>q\<rfloor> + 1
      else if even \<lfloor>q\<rfloor> then \<lfloor>q\<rfloor> else \<lfloor>q\<rfloor> + 1)"

text \<open>
  The nearest multiple of the unit in the last place of the binade, a significand of 53
  bits; then the overflow, and the sign.
\<close>

definition nearest :: "real \<Rightarrow> real" where
  "nearest r = of_int (round_even (r / 2 powi (exponent r - 52))) * 2 powi (exponent r - 52)"

definition rnd :: "real \<Rightarrow> number" where
  "rnd r = (if 2 ^ 1024 \<le> nearest \<bar>r\<bar> then (if 0 < r then PosInf else NegInf)
            else if 0 \<le> r then Fin (nearest r) else Fin (- nearest (- r)))"

text \<open>The reals that are binary64 values: those that rounding leaves as they are.\<close>

definition is_double :: "real \<Rightarrow> bool" where
  "is_double r = (rnd r = Fin r)"

subsection \<open>Arithmetic and comparison\<close>

instantiation number :: "{plus, minus, uminus, times, inverse, ord}"
begin

definition uminus_number :: "number \<Rightarrow> number" where
  "uminus_number a = (case a of Fin u \<Rightarrow> Fin (- u) | PosInf \<Rightarrow> NegInf | NegInf \<Rightarrow> PosInf | NaN \<Rightarrow> NaN)"

definition plus_number :: "number \<Rightarrow> number \<Rightarrow> number" where
  "plus_number a b = (case a of
      NaN \<Rightarrow> NaN
    | Fin u \<Rightarrow> (case b of Fin v \<Rightarrow> rnd (u + v) | PosInf \<Rightarrow> PosInf | NegInf \<Rightarrow> NegInf | NaN \<Rightarrow> NaN)
    | PosInf \<Rightarrow> (case b of Fin v \<Rightarrow> PosInf | PosInf \<Rightarrow> PosInf | NegInf \<Rightarrow> NaN | NaN \<Rightarrow> NaN)
    | NegInf \<Rightarrow> (case b of Fin v \<Rightarrow> NegInf | PosInf \<Rightarrow> NaN | NegInf \<Rightarrow> NegInf | NaN \<Rightarrow> NaN))"

definition minus_number :: "number \<Rightarrow> number \<Rightarrow> number" where
  "minus_number a b = (a::number) + (- b)"

definition times_number :: "number \<Rightarrow> number \<Rightarrow> number" where
  "times_number a b = (case a of
      NaN \<Rightarrow> NaN
    | Fin u \<Rightarrow> (case b of
          Fin v \<Rightarrow> rnd (u * v)
        | PosInf \<Rightarrow> (if u = 0 then NaN else if 0 < u then PosInf else NegInf)
        | NegInf \<Rightarrow> (if u = 0 then NaN else if 0 < u then NegInf else PosInf)
        | NaN \<Rightarrow> NaN)
    | PosInf \<Rightarrow> (case b of
          Fin v \<Rightarrow> (if v = 0 then NaN else if 0 < v then PosInf else NegInf)
        | PosInf \<Rightarrow> PosInf | NegInf \<Rightarrow> NegInf | NaN \<Rightarrow> NaN)
    | NegInf \<Rightarrow> (case b of
          Fin v \<Rightarrow> (if v = 0 then NaN else if 0 < v then NegInf else PosInf)
        | PosInf \<Rightarrow> NegInf | NegInf \<Rightarrow> PosInf | NaN \<Rightarrow> NaN))"

definition divide_number :: "number \<Rightarrow> number \<Rightarrow> number" where
  "divide_number a b = (case a of
      NaN \<Rightarrow> NaN
    | Fin u \<Rightarrow> (case b of
          Fin v \<Rightarrow> (if v \<noteq> 0 then rnd (u / v)
                    else if u = 0 then NaN else if 0 < u then PosInf else NegInf)
        | PosInf \<Rightarrow> Fin 0 | NegInf \<Rightarrow> Fin 0 | NaN \<Rightarrow> NaN)
    | PosInf \<Rightarrow> (case b of
          Fin v \<Rightarrow> (if 0 \<le> v then PosInf else NegInf)
        | PosInf \<Rightarrow> NaN | NegInf \<Rightarrow> NaN | NaN \<Rightarrow> NaN)
    | NegInf \<Rightarrow> (case b of
          Fin v \<Rightarrow> (if 0 \<le> v then NegInf else PosInf)
        | PosInf \<Rightarrow> NaN | NegInf \<Rightarrow> NaN | NaN \<Rightarrow> NaN))"

definition inverse_number :: "number \<Rightarrow> number" where
  "inverse_number a = divide (Fin 1) (a::number)"

definition less_number :: "number \<Rightarrow> number \<Rightarrow> bool" where
  "less_number a b = (case a of
      NaN \<Rightarrow> False
    | Fin u \<Rightarrow> (case b of Fin v \<Rightarrow> u < v | PosInf \<Rightarrow> True | NegInf \<Rightarrow> False | NaN \<Rightarrow> False)
    | PosInf \<Rightarrow> False
    | NegInf \<Rightarrow> (case b of Fin v \<Rightarrow> True | PosInf \<Rightarrow> True | NegInf \<Rightarrow> False | NaN \<Rightarrow> False))"

definition less_eq_number :: "number \<Rightarrow> number \<Rightarrow> bool" where
  "less_eq_number a b = (a \<noteq> NaN \<and> b \<noteq> NaN \<and> ((a::number) < b \<or> a = b))"

instance ..

end

text \<open>The strict equality \<^verbatim>\<open>===\<close> on numbers: NaN equals nothing, itself included.\<close>

definition strict_eq :: "number \<Rightarrow> number \<Rightarrow> bool" where
  "strict_eq a b = (a \<noteq> NaN \<and> b \<noteq> NaN \<and> a = b)"

definition isFinite :: "number \<Rightarrow> bool" where
  "isFinite a = (case a of Fin u \<Rightarrow> True | _ \<Rightarrow> False)"

text \<open>
  The numbers of a program: a finite one is a binary64 value. The data of a plot is
  taken to hold such numbers only.
\<close>

definition binary64 :: "number \<Rightarrow> bool" where
  "binary64 a = (case a of Fin u \<Rightarrow> is_double u | _ \<Rightarrow> True)"

text \<open>
  \<^verbatim>\<open>Math.min(...vs)\<close> and \<^verbatim>\<open>Math.max(...vs)\<close>: the running value starts at
  \<open>+Infinity\<close> (\<open>-Infinity\<close>), any NaN argument makes the result NaN.
\<close>

definition min_step :: "number \<Rightarrow> number \<Rightarrow> number" where
  "min_step v lowest = (if v = NaN \<or> lowest = NaN then NaN else if v < lowest then v else lowest)"

definition max_step :: "number \<Rightarrow> number \<Rightarrow> number" where
  "max_step v highest = (if v = NaN \<or> highest = NaN then NaN else if highest < v then v else highest)"

definition Math_min :: "number list \<Rightarrow> number" where
  "Math_min vs = fold min_step vs PosInf"

definition Math_max :: "number list \<Rightarrow> number" where
  "Math_max vs = fold max_step vs NegInf"

section \<open>The data model of the plot\<close>

text \<open>
  \<^verbatim>\<open>type PlotData = { x: number[]; y?: number[]; label: string }\<close>
\<close>

record PlotData =
  x :: "number list"
  y :: "number list option"
  label :: string

subsection \<open>The extent of the data\<close>

text \<open>
  \<^verbatim>\<open>data.flatMap(d => d.x)\<close>, \<^verbatim>\<open>data.flatMap(d => d.y ?? [])\<close>, and the minimum and
  maximum of each by \<^verbatim>\<open>Math.min(...allX)\<close> and its like, the Y extent defaulting to 0
  and 1 when there is no Y value. The spread calls are taken within the argument limit
  of the engine.
\<close>

definition allX :: "PlotData list \<Rightarrow> number list" where
  "allX data = concat (map x data)"

definition allY :: "PlotData list \<Rightarrow> number list" where
  "allY data = concat (map (\<lambda>d. case y d of None \<Rightarrow> [] | Some ys \<Rightarrow> ys) data)"

definition minX :: "PlotData list \<Rightarrow> number" where
  "minX data = Math_min (allX data)"

definition maxX :: "PlotData list \<Rightarrow> number" where
  "maxX data = Math_max (allX data)"

definition minY :: "PlotData list \<Rightarrow> number" where
  "minY data = (if length (allY data) \<noteq> 0 then Math_min (allY data) else Fin 0)"

definition maxY :: "PlotData list \<Rightarrow> number" where
  "maxY data = (if length (allY data) \<noteq> 0 then Math_max (allY data) else Fin 1)"

subsection \<open>The scale of the legend mode (800 x 320, padding 40, legend 120)\<close>

definition width :: number where "width = Fin 800"
definition height :: number where "height = Fin 320"
definition padding :: number where "padding = Fin 40"
definition legendWidth :: number where "legendWidth = Fin 120"

definition scaleX :: "PlotData list \<Rightarrow> number \<Rightarrow> number" where
  "scaleX data v =
     padding + (v - minX data) / (maxX data - minX data) * (width - Fin 2 * padding - legendWidth)"

definition scaleY :: "PlotData list \<Rightarrow> number \<Rightarrow> number" where
  "scaleY data v =
     height - padding - (v - minY data) / (maxY data - minY data) * (height - Fin 2 * padding)"

subsection \<open>The scale of the minimal mode (400 x 200, padding 30, no legend reservation)\<close>

definition width_minimal :: number where "width_minimal = Fin 400"
definition height_minimal :: number where "height_minimal = Fin 200"
definition padding_minimal :: number where "padding_minimal = Fin 30"

definition scaleX_minimal :: "PlotData list \<Rightarrow> number \<Rightarrow> number" where
  "scaleX_minimal data v =
     padding_minimal + (v - minX data) / (maxX data - minX data)
       * (width_minimal - Fin 2 * padding_minimal)"

definition scaleY_minimal :: "PlotData list \<Rightarrow> number \<Rightarrow> number" where
  "scaleY_minimal data v =
     height_minimal - padding_minimal - (v - minY data) / (maxY data - minY data)
       * (height_minimal - Fin 2 * padding_minimal)"

section \<open>The renderer: SimplePlot, legend mode\<close>

text \<open>
  The drawing is the list of the SVG elements the component returns, with the
  attributes that carry geometry and colour: a line is \<open>x1 y1 x2 y2 stroke\<close>, a
  polyline is its stroke and its points (the pairs that the source joins into the
  \<^verbatim>\<open>points\<close> string), a circle is \<open>cx cy fill\<close>, a text is \<open>x y fill\<close> and its
  content, a rectangle is \<open>x y fill\<close>, and \<open>G\<close> is a group. The content of a text is
  a string or \<^verbatim>\<open>v.toFixed(2)\<close> of a number \<open>v\<close>, kept unformatted.
\<close>

datatype content = Str string | ToFixed2 number

datatype svg =
    Line number number number number string
  | Polyline string "(number \<times> number) list"
  | Circle number number string
  | Text number number string content
  | Rect number number string
  | G "svg list"

datatype error = TypeError

definition palette :: "string list" where
  "palette = [''#1976d2'', ''#d32f2f'', ''#388e3c'', ''#fbc02d'']"

definition gridlines :: "PlotData list \<Rightarrow> svg list" where
  "gridlines data =
     map (\<lambda>f. G [
        Line padding (scaleY data (minY data + (maxY data - minY data) * f))
             (width - padding) (scaleY data (minY data + (maxY data - minY data) * f))
             ''#e0e0e0'',
        Line (scaleX data (minX data + (maxX data - minX data) * f)) padding
             (scaleX data (minX data + (maxX data - minX data) * f)) (height - padding)
             ''#e0e0e0''])
       [Fin 0.25, Fin 0.5, Fin 0.75, Fin 1]"

definition axes :: "svg list" where
  "axes = [Line padding (height - padding) (width - padding) (height - padding) ''#888'',
           Line padding padding padding (height - padding) ''#888'']"

definition axis_labels :: "svg list" where
  "axis_labels = [Text (width / Fin 2) (height - Fin 5) ''#555'' (Str ''x''),
                  Text (Fin 10) (height / Fin 2) ''#555'' (Str ''y'')]"

text \<open>
  \<^verbatim>\<open>d.y![j]\<close> is \<^verbatim>\<open>undefined\<close> beyond the end of the array; as an operand of
  arithmetic \<^verbatim>\<open>undefined\<close> is NaN, and \<^verbatim>\<open>undefined.toFixed(2)\<close> throws a TypeError.
\<close>

definition y_at :: "number list \<Rightarrow> nat \<Rightarrow> number option" where
  "y_at ys j = (if j < length ys then Some (ys ! j) else None)"

definition ToNumber :: "number option \<Rightarrow> number" where
  "ToNumber v = (case v of None \<Rightarrow> NaN | Some n \<Rightarrow> n)"

text \<open>
  \<^verbatim>\<open>d.x.length <= 20 || j % Math.ceil(d.x.length / 20) === 0\<close>, on the array length
  \<open>N\<close> and the index \<open>j\<close>, both natural numbers. The quotient has no rounding that
  the ceiling could see for any length an array can have.
\<close>

definition label_shown :: "nat \<Rightarrow> nat \<Rightarrow> bool" where
  "label_shown N j = (N \<le> 20 \<or> j mod nat \<lceil>real N / 20\<rceil> = 0)"

definition point :: "PlotData list \<Rightarrow> number list \<Rightarrow> nat \<times> number \<Rightarrow> number \<times> number" where
  "point data ys jx = (case jx of (j, xv) \<Rightarrow> (scaleX data xv, scaleY data (ToNumber (y_at ys j))))"

definition marker :: "PlotData list \<Rightarrow> nat \<Rightarrow> number list \<Rightarrow> nat \<Rightarrow> nat \<times> number \<Rightarrow> error + svg" where
  "marker data i ys N jx = (case jx of (j, xv) \<Rightarrow>
     (let cx = scaleX data xv;
          cy = scaleY data (ToNumber (y_at ys j));
          circle = Circle cx cy (palette ! (i mod 4))
      in if label_shown N j
         then (case y_at ys j of
                 None \<Rightarrow> Inl TypeError
               | Some v \<Rightarrow> Inr (G [circle, Text cx (cy - Fin 8) (palette ! (i mod 4)) (ToFixed2 v)]))
         else Inr (G [circle])))"

text \<open>The children are evaluated in order; the first exception leaves the render.\<close>

fun sequence :: "(error + 'a) list \<Rightarrow> error + 'a list" where
  "sequence [] = Inr []"
| "sequence (r # rs) =
     (case r of
        Inl e \<Rightarrow> Inl e
      | Inr v \<Rightarrow> (case sequence rs of Inl e \<Rightarrow> Inl e | Inr vs \<Rightarrow> Inr (v # vs)))"

text \<open>
  \<^verbatim>\<open>data.map((d, i) => d.y && (<g> <polyline/> {d.x.map((x, j) => ...)} </g>))\<close>: a
  series without \<^verbatim>\<open>y\<close> yields \<^verbatim>\<open>undefined\<close>, which draws nothing.
\<close>

definition series :: "PlotData list \<Rightarrow> nat \<times> PlotData \<Rightarrow> error + svg list" where
  "series data idx = (case idx of (i, d) \<Rightarrow>
     (case y d of
        None \<Rightarrow> Inr []
      | Some ys \<Rightarrow>
          (case sequence (map (marker data i ys (length (x d))) (enumerate 0 (x d))) of
             Inl e \<Rightarrow> Inl e
           | Inr markers \<Rightarrow>
               Inr [G (Polyline (palette ! (i mod 4)) (map (point data ys) (enumerate 0 (x d)))
                       # markers)])))"

definition legend_entry :: "nat \<times> PlotData \<Rightarrow> svg" where
  "legend_entry idx = (case idx of (i, d) \<Rightarrow>
     G [Rect (width - padding - legendWidth + Fin 10) (padding + Fin 24 * Fin (real i) - Fin 12)
             (palette ! (i mod 4)),
        Text (width - padding - legendWidth + Fin 35) (padding + Fin 24 * Fin (real i) - Fin 4)
             ''#333'' (Str (label d))])"

definition legend :: "PlotData list \<Rightarrow> svg list" where
  "legend data = map legend_entry (enumerate 0 data)"

definition SimplePlot :: "PlotData list \<Rightarrow> error + svg list" where
  "SimplePlot data =
     (case sequence (map (series data) (enumerate 0 data)) of
        Inl e \<Rightarrow> Inl e
      | Inr drawn \<Rightarrow> Inr (gridlines data @ axes @ axis_labels @ concat drawn @ legend data))"

text \<open>
  The render is free of exceptions when the \<open>y\<close> array of every series that has one
  is at least as long as its \<open>x\<close> array (the spec's series have them of equal length).
\<close>

definition covered :: "PlotData \<Rightarrow> bool" where
  "covered d = (case y d of None \<Rightarrow> True | Some ys \<Rightarrow> length (x d) \<le> length ys)"

subsection \<open>Reading a drawing\<close>

fun flatten :: "svg \<Rightarrow> svg list" where
  "flatten (G children) = concat (map flatten children)"
| "flatten e = [e]"

fun is_gridline :: "svg \<Rightarrow> bool" where
  "is_gridline (Line x1 y1 x2 y2 stroke) = (stroke = ''#e0e0e0'')"
| "is_gridline e = False"

fun is_value_label :: "svg \<Rightarrow> bool" where
  "is_value_label (Text tx ty fill (ToFixed2 v)) = True"
| "is_value_label e = False"

fun has_value_label :: "svg \<Rightarrow> bool" where
  "has_value_label (G children) = list_ex is_value_label children"
| "has_value_label e = False"

fun is_polyline :: "svg \<Rightarrow> bool" where
  "is_polyline (Polyline stroke pts) = True"
| "is_polyline e = False"

fun is_circle :: "svg \<Rightarrow> bool" where
  "is_circle (Circle cx cy fill) = True"
| "is_circle e = False"

fun colour_of :: "svg \<Rightarrow> string" where
  "colour_of (Line x1 y1 x2 y2 stroke) = stroke"
| "colour_of (Polyline stroke pts) = stroke"
| "colour_of (Circle cx cy fill) = fill"
| "colour_of (Text tx ty fill c) = fill"
| "colour_of (Rect rx ry fill) = fill"
| "colour_of (G children) = []"

section \<open>The client: DemoForm, the plot tab\<close>

datatype endpoint = linspace | exp_cos | logistic | multi_bump

text \<open>The parsed body of a response: \<^verbatim>\<open>{ x }\<close> or \<^verbatim>\<open>{ x, y }\<close>.\<close>

record ArrayResponse =
  resp_x :: "number list"
  resp_y :: "number list option"

text \<open>
  What \<^verbatim>\<open>fetch\<close> and \<^verbatim>\<open>res.json()\<close> deliver for one request: the request fails
  with a message, or a response arrives with its status and the outcome of parsing its
  body.
\<close>

datatype fetch_result = NetworkError string | Response nat "string + ArrayResponse"

fun string_of_nat :: "nat \<Rightarrow> string" where
  "string_of_nat n =
     (if n < 10 then [''0123456789'' ! n]
      else string_of_nat (n div 10) @ [''0123456789'' ! (n mod 10)])"

definition fetchArrayAPI :: "fetch_result \<Rightarrow> string + ArrayResponse" where
  "fetchArrayAPI r = (case r of
       NetworkError m \<Rightarrow> Inl m
     | Response status body \<Rightarrow>
         if \<not> (200 \<le> status \<and> status \<le> 299) then Inl (''API error: '' @ string_of_nat status)
         else body)"

text \<open>
  \<^verbatim>\<open>Promise.all\<close> over the four requests, run on their settlements in the order of
  time: it is fulfilled with the four values, in the order of the requests, once all four
  are there; it is rejected with the reason of the first request that fails; and until
  one or the other it is pending.
\<close>

datatype 'a promise = Pending | Fulfilled 'a | Rejected string

type_synonym settlement = "endpoint \<times> (string + ArrayResponse)"

fun Promise_all ::
  "(endpoint \<rightharpoonup> ArrayResponse) \<Rightarrow> settlement list
     \<Rightarrow> (ArrayResponse \<times> ArrayResponse \<times> ArrayResponse \<times> ArrayResponse) promise" where
  "Promise_all got evs =
     (case (got linspace, got exp_cos, got logistic, got multi_bump) of
        (Some lin, Some expc, Some logi, Some multi) \<Rightarrow> Fulfilled (lin, expc, logi, multi)
      | _ \<Rightarrow>
        (case evs of
           [] \<Rightarrow> Pending
         | (e, Inl reason) # rest \<Rightarrow> Rejected reason
         | (e, Inr v) # rest \<Rightarrow> Promise_all (got(e \<mapsto> v)) rest))"

text \<open>The reason of the first request to fail, if any fails.\<close>

fun first_failure :: "settlement list \<Rightarrow> string option" where
  "first_failure [] = None"
| "first_failure ((e, Inl reason) # rest) = Some reason"
| "first_failure ((e, Inr v) # rest) = first_failure rest"

definition settlements :: "(endpoint \<times> fetch_result) list \<Rightarrow> settlement list" where
  "settlements arrivals = map (\<lambda>(e, r). (e, fetchArrayAPI r)) arrivals"

text \<open>The state of the component that the plot tab reads and writes.\<close>

record DemoForm =
  tab :: nat
  plotData :: "PlotData list option"
  plotLoading :: bool
  plotError :: "string option"
  xMin :: number
  xMax :: number

definition initial :: DemoForm where
  "initial = \<lparr>tab = 0, plotData = None, plotLoading = False, plotError = None,
              xMin = Fin 0, xMax = Fin 1\<rparr>"

text \<open>A request on the wire: the endpoint and the body \<^verbatim>\<open>{ x_min, x_max }\<close>.\<close>

type_synonym request = "endpoint \<times> number \<times> number"

text \<open>
  \<^verbatim>\<open>fetchAndSetPlotData\<close>, in its two halves: the synchronous start, which sets the
  flags and sends the four requests, and the handlers \<^verbatim>\<open>then\<close>, \<^verbatim>\<open>catch\<close> and
  \<^verbatim>\<open>finally\<close>, which run on the state of the moment when the joint promise settles.
\<close>

definition fetchAndSetPlotData_start :: "DemoForm \<Rightarrow> DemoForm \<times> request list" where
  "fetchAndSetPlotData_start st =
     (st\<lparr>plotLoading := True, plotError := None\<rparr>,
      [(linspace, xMin st, xMax st), (exp_cos, xMin st, xMax st),
       (logistic, xMin st, xMax st), (multi_bump, xMin st, xMax st)])"

definition fetchAndSetPlotData_settled ::
  "DemoForm \<Rightarrow> (ArrayResponse \<times> ArrayResponse \<times> ArrayResponse \<times> ArrayResponse) promise
     \<Rightarrow> DemoForm" where
  "fetchAndSetPlotData_settled st p = (case p of
       Pending \<Rightarrow> st
     | Fulfilled (lin, expc, logi, multi) \<Rightarrow>
         st\<lparr>plotData := Some [
               \<lparr>x = resp_x lin, y = None, label = ''linspace''\<rparr>,
               \<lparr>x = resp_x expc, y = resp_y expc, label = ''exp_cos''\<rparr>,
               \<lparr>x = resp_x logi, y = resp_y logi, label = ''logistic''\<rparr>,
               \<lparr>x = resp_x multi, y = resp_y multi, label = ''multi_bump''\<rparr>],
            plotLoading := False\<rparr>
     | Rejected message \<Rightarrow>
         st\<lparr>plotError := Some (if message = [] then ''API error'' else message),
            plotLoading := False\<rparr>)"

definition fetchAndSetPlotData :: "DemoForm \<Rightarrow> (endpoint \<times> fetch_result) list \<Rightarrow> DemoForm" where
  "fetchAndSetPlotData st arrivals =
     fetchAndSetPlotData_settled (fst (fetchAndSetPlotData_start st))
       (Promise_all Map.empty (settlements arrivals))"

text \<open>\<^verbatim>\<open>{plotData && <SimplePlot data={plotData} theme="modern" />}\<close> on the plot tab.\<close>

definition rendered_plot :: "DemoForm \<Rightarrow> (error + svg list) option" where
  "rendered_plot st = (if tab st = 1 then map_option SimplePlot (plotData st) else None)"

text \<open>
  What the user can do: select a tab, edit a bound, press the button. The two fields
  and the button exist on the plot tab only; the button is disabled by
  \<^verbatim>\<open>plotLoading || xMin === xMax\<close>. The effect with the dependency \<^verbatim>\<open>[tab]\<close> runs
  after every change of the tab and calls \<^verbatim>\<open>fetchAndSetPlotData\<close> when the new tab is
  the plot tab.
\<close>

datatype event = SetTab nat | ChangeXMin number | ChangeXMax number | ClickExecute

definition step :: "DemoForm \<Rightarrow> event \<Rightarrow> DemoForm \<times> request list" where
  "step st ev = (case ev of
       SetTab v \<Rightarrow>
         if v = tab st then (st, [])
         else if v \<noteq> 1 then (st\<lparr>tab := v\<rparr>, [])
         else fetchAndSetPlotData_start (st\<lparr>tab := v\<rparr>)
     | ChangeXMin v \<Rightarrow> if tab st = 1 then (st\<lparr>xMin := v\<rparr>, []) else (st, [])
     | ChangeXMax v \<Rightarrow> if tab st = 1 then (st\<lparr>xMax := v\<rparr>, []) else (st, [])
     | ClickExecute \<Rightarrow>
         if tab st = 1 \<and> \<not> (plotLoading st \<or> strict_eq (xMin st) (xMax st))
         then fetchAndSetPlotData_start st
         else (st, []))"

fun run :: "DemoForm \<Rightarrow> event list \<Rightarrow> DemoForm \<times> request list" where
  "run st [] = (st, [])"
| "run st (ev # evs) =
     (case step st ev of (st', sent) \<Rightarrow>
        (case run st' evs of (st'', sent') \<Rightarrow> (st'', sent @ sent')))"

section \<open>The signal generators\<close>

text \<open>
  Modelled from the spec: the four generators of the server (\<^verbatim>\<open>linspace\<close>,
  \<^verbatim>\<open>exp_cos\<close>, \<^verbatim>\<open>logistic\<close>, \<^verbatim>\<open>multi_bump\<close>) are not among the sources. The spec
  has each of them fail with \<^verbatim>\<open>InvalidDomain\<close> on equal or non-finite bounds before
  any array is computed, and otherwise return \<open>N\<close> evenly spaced samples from \<open>x_min\<close>
  to \<open>x_max\<close>, with the values of its function at them (none for \<^verbatim>\<open>linspace\<close>). The
  sample count and the function of each generator are parameters.
\<close>

datatype generator_error = InvalidDomain

definition linspace_samples :: "nat \<Rightarrow> real \<Rightarrow> real \<Rightarrow> real list" where
  "linspace_samples N a b = map (\<lambda>i. a + real i * ((b - a) / real (N - 1))) [0..<N]"

definition generator ::
  "nat \<Rightarrow> (real \<Rightarrow> real) option \<Rightarrow> number \<Rightarrow> number \<Rightarrow> generator_error + ArrayResponse" where
  "generator N f x_min x_max =
     (if \<not> isFinite x_min \<or> \<not> isFinite x_max \<or> x_min = x_max then Inl InvalidDomain
      else (case (x_min, x_max) of
              (Fin a, Fin b) \<Rightarrow>
                Inr \<lparr>resp_x = map Fin (linspace_samples N a b),
                     resp_y = map_option (\<lambda>g. map (\<lambda>v. Fin (g v)) (linspace_samples N a b)) f\<rparr>
            | _ \<Rightarrow> Inl InvalidDomain))"

section \<open>Rounding\<close>

subsection \<open>The binade\<close>

lemma two_powi_Suc: "2 powi (e + 1) = 2 * (2::real) powi e"
  by (simp add: power_int_add)

lemma two_powi_pred: "2 powi (e - 1) = (2::real) powi e / 2"
  by (simp add: power_int_diff)

lemma binade_up_spec:
  assumes "1 \<le> r"
  shows "0 \<le> binade_up n r \<and> binade_up n r \<le> int n \<and> 2 powi (binade_up n r) \<le> r \<and>
         (binade_up n r < int n \<longrightarrow> r < 2 powi (binade_up n r + 1))"
  using assms
proof (induction n arbitrary: r)
  case 0
  then show ?case by simp
next
  case (Suc n)
  show ?case
  proof (cases "r < 2")
    case True
    with Suc.prems show ?thesis by simp
  next
    case False
    then have "1 \<le> r / 2" by simp
    from Suc.IH [OF this] False show ?thesis
      by (auto simp: power_int_add)
  qed
qed

lemma binade_down_ge_1: "1 \<le> r \<Longrightarrow> binade_down n r = 0"
  by (cases n) simp_all

lemma binade_down_spec:
  assumes "0 \<le> r" and "r < 1"
  shows "- int n \<le> binade_down n r \<and> binade_down n r \<le> 0 \<and>
         r < 2 powi (binade_down n r + 1) \<and>
         (- int n < binade_down n r \<longrightarrow> 2 powi (binade_down n r) \<le> r)"
  using assms
proof (induction n arbitrary: r)
  case 0
  then show ?case by simp
next
  case (Suc n)
  show ?case
  proof (cases "1 \<le> r * 2")
    case True
    with Suc.prems show ?thesis
      by (simp add: binade_down_ge_1 power_int_minus)
  next
    case False
    with Suc.prems have "0 \<le> r * 2" "r * 2 < 1" by simp_all
    from Suc.IH [OF this] Suc.prems show ?thesis
      by (auto simp: two_powi_Suc two_powi_pred)
  qed
qed

lemma exponent_range: "- 1022 \<le> exponent r" "exponent r \<le> 1024"
  using binade_up_spec [of "\<bar>r\<bar>" 1024] binade_down_spec [of "\<bar>r\<bar>" 1022]
  by (auto simp: exponent_def)

lemma exponent_upper: "exponent r < 1024 \<Longrightarrow> \<bar>r\<bar> < 2 powi (exponent r + 1)"
  using binade_up_spec [of "\<bar>r\<bar>" 1024] binade_down_spec [of "\<bar>r\<bar>" 1022]
  by (auto simp: exponent_def)

lemma exponent_lower: "- 1022 < exponent r \<Longrightarrow> 2 powi (exponent r) \<le> \<bar>r\<bar>"
  using binade_up_spec [of "\<bar>r\<bar>" 1024] binade_down_spec [of "\<bar>r\<bar>" 1022]
  by (auto simp: exponent_def)

lemma exponent_abs [simp]: "exponent \<bar>r\<bar> = exponent r" "exponent (- r) = exponent r"
  by (simp_all add: exponent_def)

lemma exponent_mono:
  assumes "\<bar>r\<bar> \<le> \<bar>s\<bar>"
  shows "exponent r \<le> exponent s"
proof (rule ccontr)
  assume "\<not> exponent r \<le> exponent s"
  then have less: "exponent s < exponent r" by simp
  with exponent_range [of r] exponent_range [of s]
  have "exponent s < 1024" "- 1022 < exponent r" by linarith+
  then have "\<bar>s\<bar> < 2 powi (exponent s + 1)" "2 powi (exponent r) \<le> \<bar>r\<bar>"
    by (simp_all add: exponent_upper exponent_lower)
  moreover from less have "(2::real) powi (exponent s + 1) \<le> 2 powi (exponent r)"
    by (intro power_int_increasing) simp_all
  ultimately show False using assms by linarith
qed

lemma exponent_eqI:
  assumes "2 powi e \<le> \<bar>r\<bar>" and "\<bar>r\<bar> < 2 powi (e + 1)" and "- 1022 \<le> e" and "e \<le> 1023"
  shows "exponent r = e"
proof (rule ccontr)
  assume ne: "exponent r \<noteq> e"
  show False
  proof (cases "exponent r < e")
    case True
    with assms(4) have "exponent r < 1024" by simp
    then have "\<bar>r\<bar> < 2 powi (exponent r + 1)" by (rule exponent_upper)
    moreover from True have "(2::real) powi (exponent r + 1) \<le> 2 powi e"
      by (intro power_int_increasing) simp_all
    ultimately show False using assms(1) by linarith
  next
    case False
    with ne have gt: "e < exponent r" by simp
    with assms(3) have "- 1022 < exponent r" by simp
    then have "2 powi (exponent r) \<le> \<bar>r\<bar>" by (rule exponent_lower)
    moreover from gt have "(2::real) powi (e + 1) \<le> 2 powi (exponent r)"
      by (intro power_int_increasing) simp_all
    ultimately show False using assms(2) by linarith
  qed
qed

lemma exponent_tiny: "\<bar>r\<bar> < 2 powi (- 1021) \<Longrightarrow> exponent r = - 1022"
proof (rule ccontr)
  assume small: "\<bar>r\<bar> < 2 powi (- 1021)" and "exponent r \<noteq> - 1022"
  with exponent_range(1) [of r] have gt: "- 1022 < exponent r" by linarith
  then have "2 powi (exponent r) \<le> \<bar>r\<bar>" by (rule exponent_lower)
  moreover from gt have "(2::real) powi (- 1021) \<le> 2 powi (exponent r)"
    by (intro power_int_increasing) simp_all
  ultimately show False using small by linarith
qed

lemma exponent_huge: "2 ^ 1024 \<le> \<bar>r\<bar> \<Longrightarrow> exponent r = 1024"
proof (rule ccontr)
  assume big: "2 ^ 1024 \<le> \<bar>r\<bar>" and "exponent r \<noteq> 1024"
  with exponent_range(2) [of r] have lt: "exponent r < 1024" by linarith
  then have "\<bar>r\<bar> < 2 powi (exponent r + 1)" by (rule exponent_upper)
  moreover from lt have "(2::real) powi (exponent r + 1) \<le> 2 powi 1024"
    by (intro power_int_increasing) simp_all
  ultimately show False using big by simp
qed

subsection \<open>The nearest integer\<close>

lemma round_even_of_int [simp]: "round_even (of_int n) = n"
  by (simp add: round_even_def)

lemma round_even_0 [simp]: "round_even 0 = 0"
  by (simp add: round_even_def)

lemma round_even_bounds: "\<lfloor>q\<rfloor> \<le> round_even q" "round_even q \<le> \<lfloor>q\<rfloor> + 1"
  by (simp_all add: round_even_def)

lemma round_even_mono:
  assumes "q \<le> q'"
  shows "round_even q \<le> round_even q'"
proof (cases "\<lfloor>q\<rfloor> = \<lfloor>q'\<rfloor>")
  case True
  with assms show ?thesis
    by (auto simp: round_even_def)
next
  case False
  with assms have "\<lfloor>q\<rfloor> < \<lfloor>q'\<rfloor>"
    by (simp add: floor_mono order.strict_iff_order)
  then have "\<lfloor>q\<rfloor> + 1 \<le> \<lfloor>q'\<rfloor>" by simp
  with round_even_bounds(2) [of q] round_even_bounds(1) [of q'] show ?thesis
    by linarith
qed

lemma round_even_nonneg: "0 \<le> q \<Longrightarrow> 0 \<le> round_even q"
  using round_even_mono [of 0 q] by simp

lemma round_even_le_int: "q \<le> of_int n \<Longrightarrow> round_even q \<le> n"
  using round_even_mono [of q "of_int n"] by simp

lemma round_even_ge_int: "of_int n \<le> q \<Longrightarrow> n \<le> round_even q"
  using round_even_mono [of "of_int n" q] by simp

subsection \<open>Rounding\<close>

lemma ulp_pos [simp]: "0 < (2::real) powi e"
  by simp

lemma nearest_0 [simp]: "nearest 0 = 0"
  by (simp add: nearest_def)

lemma nearest_nonneg: "0 \<le> r \<Longrightarrow> 0 \<le> nearest r"
  by (simp add: nearest_def round_even_nonneg)

lemma nearest_upper:
  assumes "0 \<le> r" and "exponent r < 1024"
  shows "nearest r \<le> 2 powi (exponent r + 1)"
proof -
  let ?u = "(2::real) powi (exponent r - 52)"
  from assms have "r < 2 powi (exponent r + 1)"
    using exponent_upper [of r] by simp
  also have "(2::real) powi (exponent r + 1) = 2 ^ 53 * ?u"
    by (simp add: power_int_diff power_int_add)
  finally have "r / ?u \<le> of_int (2 ^ 53)"
    by (simp add: pos_divide_le_eq)
  then have "round_even (r / ?u) \<le> 2 ^ 53"
    by (rule round_even_le_int)
  then have "real_of_int (round_even (r / ?u)) \<le> 2 ^ 53"
    by (metis of_int_le_iff of_int_numeral of_int_power)
  then have "nearest r \<le> 2 ^ 53 * ?u"
    by (simp add: nearest_def)
  also have "2 ^ 53 * ?u = (2::real) powi (exponent r + 1)"
    by (simp add: power_int_diff power_int_add)
  finally show ?thesis .
qed

lemma nearest_lower:
  assumes "0 \<le> r" and "- 1022 < exponent r"
  shows "2 powi (exponent r) \<le> nearest r"
proof -
  let ?u = "(2::real) powi (exponent r - 52)"
  from assms have "2 powi (exponent r) \<le> r"
    using exponent_lower [of r] by simp
  moreover have "(2::real) powi (exponent r) = 2 ^ 52 * ?u"
    by (simp add: power_int_diff)
  ultimately have "of_int (2 ^ 52) \<le> r / ?u"
    by (simp add: pos_le_divide_eq)
  then have "2 ^ 52 \<le> round_even (r / ?u)"
    by (rule round_even_ge_int)
  then have "2 ^ 52 \<le> real_of_int (round_even (r / ?u))"
    by (metis of_int_le_iff of_int_numeral of_int_power)
  then have "2 ^ 52 * ?u \<le> nearest r"
    by (simp add: nearest_def)
  moreover have "2 ^ 52 * ?u = (2::real) powi (exponent r)"
    by (simp add: power_int_diff)
  ultimately show ?thesis by simp
qed

lemma nearest_mono:
  assumes "0 \<le> r" and "r \<le> s"
  shows "nearest r \<le> nearest s"
proof -
  from assms have "\<bar>r\<bar> \<le> \<bar>s\<bar>" by simp
  then have le: "exponent r \<le> exponent s" by (rule exponent_mono)
  show ?thesis
  proof (cases "exponent r = exponent s")
    case True
    let ?u = "(2::real) powi (exponent s - 52)"
    from assms(2) have "r / ?u \<le> s / ?u"
      by (simp add: divide_right_mono)
    then have "round_even (r / ?u) \<le> round_even (s / ?u)"
      by (rule round_even_mono)
    then show ?thesis
      by (simp add: nearest_def True)
  next
    case False
    with le have less: "exponent r < exponent s" by simp
    with exponent_range [of r] exponent_range [of s]
    have "exponent r < 1024" "- 1022 < exponent s" by linarith+
    with assms have "nearest r \<le> 2 powi (exponent r + 1)" "2 powi (exponent s) \<le> nearest s"
      by (simp_all add: nearest_upper nearest_lower)
    moreover from less have "(2::real) powi (exponent r + 1) \<le> 2 powi (exponent s)"
      by (intro power_int_increasing) simp_all
    ultimately show ?thesis by linarith
  qed
qed

lemma rnd_nonneg:
  "0 \<le> r \<Longrightarrow> rnd r = (if 2 ^ 1024 \<le> nearest r then PosInf else Fin (nearest r))"
  by (cases "r = 0") (simp_all add: rnd_def)

lemma rnd_neg:
  "r < 0 \<Longrightarrow> rnd r = (if 2 ^ 1024 \<le> nearest (- r) then NegInf else Fin (- nearest (- r)))"
  by (simp add: rnd_def abs_if)

lemma rnd_not_NaN [simp]: "rnd r \<noteq> NaN"
  by (simp add: rnd_def)

lemma rnd_0 [simp]: "rnd 0 = Fin 0"
  by (simp add: rnd_nonneg)

lemma less_number_simps [simp]:
  "(Fin u < Fin v) = (u < v)"
  "Fin u < PosInf" "\<not> Fin u < NegInf" "\<not> Fin u < NaN"
  "\<not> PosInf < a" "\<not> NaN < a" "\<not> a < NaN" "\<not> a < NegInf"
  "NegInf < Fin u" "NegInf < PosInf"
  by (simp_all add: less_number_def split: number.splits)

lemma less_eq_number_simps [simp]:
  "(Fin u \<le> Fin v) = (u \<le> v)"
  "Fin u \<le> PosInf" "\<not> Fin u \<le> NegInf" "NegInf \<le> Fin u" "\<not> PosInf \<le> Fin u"
  "NegInf \<le> PosInf" "\<not> PosInf \<le> NegInf" "PosInf \<le> PosInf" "NegInf \<le> NegInf"
  "\<not> NaN \<le> a" "\<not> a \<le> NaN"
  by (auto simp add: less_eq_number_def)

lemma rnd_mono:
  assumes "r \<le> s"
  shows "rnd r \<le> rnd s"
proof -
  consider "0 \<le> r" | "r < 0" "0 \<le> s" | "s < 0" using assms by linarith
  then show ?thesis
  proof cases
    case 1
    with assms have "0 \<le> s" "nearest r \<le> nearest s"
      by (simp_all add: nearest_mono)
    with 1 show ?thesis
      by (auto simp: rnd_nonneg)
  next
    case 2
    then have "0 \<le> nearest (- r)" "0 \<le> nearest s"
      by (simp_all add: nearest_nonneg)
    with 2 show ?thesis
      by (auto simp: rnd_nonneg rnd_neg)
  next
    case 3
    with assms have "r < 0" "0 \<le> - s" "- s \<le> - r" by simp_all
    then have "nearest (- s) \<le> nearest (- r)"
      by (simp add: nearest_mono)
    with 3 \<open>r < 0\<close> show ?thesis
      by (auto simp: rnd_neg)
  qed
qed

subsection \<open>Binary64 values\<close>

lemma two_powi_less_D: "(2::real) powi a < 2 powi b \<Longrightarrow> a < b"
  using power_int_increasing [of b a "2::real"] by (cases "a < b") simp_all

lemma two_powi_nat: "0 \<le> n \<Longrightarrow> (2::real) powi n = of_int (2 ^ nat n)"
  by (simp add: power_int_def)

lemma nearest_exact:
  assumes r: "r = of_int m * 2 powi k" and m: "\<bar>m\<bar> < 2 ^ 53" and k: "- 1074 \<le> k"
  shows "nearest r = r"
proof -
  let ?e = "exponent r"
  have e: "?e - 52 \<le> k"
  proof (cases "- 1022 < ?e")
    case True
    then have "2 powi ?e \<le> \<bar>r\<bar>" by (rule exponent_lower)
    also have "\<bar>r\<bar> = \<bar>real_of_int m\<bar> * 2 powi k"
      by (simp add: r abs_mult)
    also from m have "\<bar>real_of_int m\<bar> < 2 ^ 53"
      by (metis of_int_abs of_int_less_iff of_int_numeral of_int_power)
    then have "\<bar>real_of_int m\<bar> * 2 powi k < 2 ^ 53 * 2 powi k"
      by simp
    also have "2 ^ 53 * 2 powi k = (2::real) powi (k + 53)"
      by (simp add: power_int_add)
    finally have "?e < k + 53"
      by (rule two_powi_less_D)
    then show ?thesis by simp
  next
    case False
    with exponent_range(1) [of r] k show ?thesis by linarith
  qed
  define d where "d = ?e - 52"
  from e have d: "0 \<le> k - d" by (simp add: d_def)
  have split: "(2::real) powi k = 2 powi (k - d) * 2 powi d"
    by (simp flip: power_int_add)
  have whole: "(2::real) powi (k - d) = of_int (2 ^ nat (k - d))"
    using d by (rule two_powi_nat)
  have "r / 2 powi d = of_int m * 2 powi (k - d)"
    by (simp add: r split)
  also have "\<dots> = of_int (m * 2 ^ nat (k - d))"
    by (simp add: whole)
  finally have "round_even (r / 2 powi d) = m * 2 ^ nat (k - d)"
    by (simp only: round_even_of_int)
  then have "nearest r = of_int (m * 2 ^ nat (k - d)) * 2 powi d"
    by (simp only: nearest_def d_def)
  also have "\<dots> = of_int m * (2 powi (k - d) * 2 powi d)"
    by (simp add: whole)
  also have "\<dots> = r"
    by (simp only: r split)
  finally show ?thesis .
qed

lemma rnd_exact:
  assumes r: "r = of_int m * 2 powi k" and m: "\<bar>m\<bar> < 2 ^ 53" and k: "- 1074 \<le> k"
    and bound: "\<bar>r\<bar> < 2 ^ 1024"
  shows "rnd r = Fin r"
proof -
  have "- r = of_int (- m) * 2 powi k" by (simp add: r)
  with m k have neg: "nearest (- r) = - r"
    by (intro nearest_exact [where m = "- m" and k = k]) simp_all
  from r m k have pos: "nearest r = r" by (rule nearest_exact)
  show ?thesis
  proof (cases "0 \<le> r")
    case True
    with pos bound show ?thesis by (simp add: rnd_nonneg)
  next
    case False
    with neg bound show ?thesis by (simp add: rnd_neg)
  qed
qed

lemma rnd_int:
  assumes "r \<in> \<int>" and "\<bar>r\<bar> < 2 ^ 53"
  shows "rnd r = Fin r"
proof -
  from assms(1) obtain m where m: "r = of_int m" by (auto elim: Ints_cases)
  with assms(2) have "\<bar>m\<bar> < 2 ^ 53"
    by (metis of_int_abs of_int_less_iff of_int_numeral of_int_power)
  moreover from assms(2) have "\<bar>r\<bar> < 2 ^ 1024"
    by (rule less_trans) simp
  ultimately show ?thesis
    by (intro rnd_exact [where m = m and k = 0]) (simp_all add: m)
qed

lemma rnd_dyadic:
  assumes "r * 2 ^ j \<in> \<int>" and "\<bar>r * 2 ^ j\<bar> < 2 ^ 53" and "j \<le> 1074" and "\<bar>r\<bar> < 2 ^ 1024"
  shows "rnd r = Fin r"
proof -
  from assms(1) obtain m where m: "r * 2 ^ j = of_int m" by (auto elim: Ints_cases)
  with assms(2) have "\<bar>m\<bar> < 2 ^ 53"
    by (metis of_int_abs of_int_less_iff of_int_numeral of_int_power)
  moreover have "r = of_int m * 2 powi (- int j)"
    by (simp add: m [symmetric] power_int_minus)
  ultimately show ?thesis
    using assms(3,4) by (intro rnd_exact [where m = m and k = "- int j"]) simp_all
qed

lemma rnd_overflow:
  assumes "2 ^ 1024 \<le> r"
  shows "rnd r = PosInf"
proof -
  have "nearest (2 ^ 1024) = (2::real) ^ 1024"
    by (rule nearest_exact [where m = 1 and k = 1024]) simp_all
  moreover from assms have "nearest (2 ^ 1024) \<le> nearest r"
    by (intro nearest_mono) simp_all
  ultimately have "2 ^ 1024 \<le> nearest r" by simp
  with assms show ?thesis
    by (simp add: rnd_nonneg)
qed

lemma nearest_on_grid:
  assumes "g \<le> - 1074"
  shows "\<exists>n::int. nearest t = of_int n * 2 powi g"
proof -
  define d where "d = exponent t - 52"
  from exponent_range(1) [of t] assms have d: "0 \<le> d - g" by (simp add: d_def)
  have "(2::real) powi d = 2 powi (d - g) * 2 powi g"
    by (simp flip: power_int_add)
  also have "(2::real) powi (d - g) = of_int (2 ^ nat (d - g))"
    using d by (rule two_powi_nat)
  finally have "nearest t = of_int (round_even (t / 2 powi d) * 2 ^ nat (d - g)) * 2 powi g"
    by (simp add: nearest_def d_def)
  then show ?thesis ..
qed

lemma double_on_grid:
  assumes "is_double r" and "g \<le> - 1074"
  shows "\<exists>n::int. r = of_int n * 2 powi g"
proof (cases "0 \<le> r")
  case True
  with assms(1) have "nearest r = r"
    by (simp add: is_double_def rnd_nonneg split: if_splits)
  with nearest_on_grid [OF assms(2), of r] show ?thesis by simp
next
  case False
  with assms(1) have r: "r = - nearest (- r)"
    by (simp add: is_double_def rnd_neg split: if_splits)
  from nearest_on_grid [OF assms(2), of "- r"]
  obtain n where "nearest (- r) = of_int n * 2 powi g" ..
  with r have "r = of_int (- n) * 2 powi g" by simp
  then show ?thesis ..
qed

lemma double_diff_pos:
  assumes "is_double a" and "is_double b" and "a < b"
  shows "Fin 0 < rnd (b - a)"
proof -
  define g :: int where "g = - 1074"
  then have g: "g \<le> - 1074" "- 1074 \<le> g" by simp_all
  from assms(1,2) g(1) obtain m n :: int
    where a: "a = of_int m * 2 powi g" and b: "b = of_int n * 2 powi g"
    using double_on_grid by blast
  with assms(3) have "m < n" by simp
  then have "1 \<le> real_of_int (n - m)" by simp
  then have "1 * 2 powi g \<le> real_of_int (n - m) * 2 powi g"
    by (intro mult_right_mono) simp_all
  also have "\<dots> = b - a"
    by (simp add: a b algebra_simps)
  finally have "rnd (2 powi g) \<le> rnd (b - a)"
    by (intro rnd_mono) simp
  moreover have "(2::real) powi g < 2 powi 1024"
    by (intro power_int_strict_increasing) (simp_all add: g_def)
  then have "rnd (2 powi g) = Fin (2 powi g)"
    using g(2) by (intro rnd_exact [where m = 1 and k = g]) simp_all
  ultimately have le: "Fin (2 powi g) \<le> rnd (b - a)" by simp
  have pos: "0 < (2::real) powi g" by simp
  show ?thesis
  proof (cases "rnd (b - a)")
    case (Fin v)
    with le have "2 powi g \<le> v" by simp
    with pos have "0 < v" by linarith
    with Fin show ?thesis by simp
  qed (use le in simp_all)
qed

lemma rnd_absorbed: "rnd (280 - 240 / 2 ^ 60) = Fin 280"
proof -
  define r :: real where "r = 280 - 240 / 2 ^ 60"
  have e: "exponent r = 8"
    by (rule exponent_eqI) (simp_all add: r_def)
  have "round_even (r / 2 powi (8 - 52)) = 280 * 2 ^ 44"
    by (simp add: r_def round_even_def power_int_minus)
  then have "nearest r = of_int (280 * 2 ^ 44) * 2 powi (8 - 52)"
    by (simp only: nearest_def e)
  then have "nearest r = 280"
    by (simp add: power_int_minus)
  moreover have "0 \<le> r" by (simp add: r_def)
  ultimately have "rnd r = Fin 280"
    by (simp add: rnd_nonneg)
  then show ?thesis by (simp only: r_def)
qed

section \<open>Arithmetic on numbers\<close>

lemma Fin_arith [simp]:
  "Fin u + Fin v = rnd (u + v)"
  "Fin u - Fin v = rnd (u - v)"
  "Fin u * Fin v = rnd (u * v)"
  "Fin u / Fin v =
     (if v \<noteq> 0 then rnd (u / v) else if u = 0 then NaN else if 0 < u then PosInf else NegInf)"
  by (simp_all add: plus_number_def minus_number_def uminus_number_def times_number_def
      divide_number_def)

lemma NaN_arith [simp]:
  "NaN + a = NaN" "a + NaN = NaN" "NaN - a = NaN" "a - NaN = NaN"
  "NaN * a = NaN" "a * NaN = NaN" "NaN / a = NaN" "a / NaN = NaN"
  by (cases a; simp add: plus_number_def minus_number_def uminus_number_def times_number_def
      divide_number_def)+

lemma Inf_arith [simp]:
  "PosInf + Fin u = PosInf" "NegInf + Fin u = NegInf"
  "PosInf - Fin u = PosInf" "NegInf - Fin u = NegInf"
  "Fin u - PosInf = NegInf" "Fin u - NegInf = PosInf"
  "PosInf - PosInf = NaN" "NegInf - NegInf = NaN"
  "PosInf - NegInf = PosInf" "NegInf - PosInf = NegInf"
  "PosInf / PosInf = NaN" "Fin u / PosInf = Fin 0"
  "0 < u \<Longrightarrow> PosInf / Fin u = PosInf" "0 < u \<Longrightarrow> NegInf / Fin u = NegInf"
  "0 < u \<Longrightarrow> PosInf * Fin u = PosInf" "0 < u \<Longrightarrow> NegInf * Fin u = NegInf"
  by (simp_all add: plus_number_def minus_number_def uminus_number_def times_number_def
      divide_number_def)

lemma zero_div_self_minus: "(a - a) / (a - a) = NaN"
  by (cases a) simp_all

lemma isFinite_Fin: "isFinite a \<Longrightarrow> \<exists>u. a = Fin u"
  by (cases a) (simp_all add: isFinite_def)

lemma isFinite_simps [simp]:
  "isFinite (Fin u)" "\<not> isFinite PosInf" "\<not> isFinite NegInf" "\<not> isFinite NaN"
  by (simp_all add: isFinite_def)

lemma binary64_simps [simp]:
  "binary64 (Fin u) = is_double u" "binary64 PosInf" "binary64 NegInf" "binary64 NaN"
  by (simp_all add: binary64_def)

lemma is_double_int: "r \<in> \<int> \<Longrightarrow> \<bar>r\<bar> < 2 ^ 53 \<Longrightarrow> is_double r"
  by (simp add: is_double_def rnd_int)

lemmas geometry_defs = width_def height_def padding_def legendWidth_def
  width_minimal_def height_minimal_def padding_minimal_def

text \<open>The constants of the two scales, which the arithmetic of the code computes exactly.\<close>

lemma geometry_values:
  "width - Fin 2 * padding - legendWidth = Fin 600"
  "width - padding - legendWidth = Fin 640"
  "width - padding = Fin 760"
  "height - Fin 2 * padding = Fin 240"
  "height - padding = Fin 280"
  "width_minimal - Fin 2 * padding_minimal = Fin 340"
  "width_minimal - padding_minimal = Fin 370"
  "height_minimal - Fin 2 * padding_minimal = Fin 140"
  "height_minimal - padding_minimal = Fin 170"
  by (simp_all add: geometry_defs rnd_int)

lemma Math_min_simps [simp]:
  "Math_min [] = PosInf"
  "Math_max [] = NegInf"
  by (simp_all add: Math_min_def Math_max_def)

lemmas extent_defs = minX_def maxX_def minY_def maxY_def allX_def allY_def
  Math_min_def Math_max_def min_step_def max_step_def





lemma number_le_PosInf: "a \<noteq> NaN \<Longrightarrow> a \<le> PosInf"
  by (cases a) simp_all

lemma number_NegInf_le: "a \<noteq> NaN \<Longrightarrow> NegInf \<le> a"
  by (cases a) simp_all

subsection \<open>The operations with a finite operand are monotone\<close>

lemma sub_right_mono:
  assumes "a \<le> b"
  shows "a - Fin c \<le> b - Fin c"
  using assms
  by (cases a; cases b) (simp_all add: rnd_mono number_le_PosInf number_NegInf_le)

lemma div_right_mono:
  assumes "a \<le> b" and "0 < d"
  shows "a / Fin d \<le> b / Fin d"
  using assms
  by (cases a; cases b)
    (simp_all add: rnd_mono divide_right_mono number_le_PosInf number_NegInf_le)

lemma mult_right_mono_number:
  assumes "a \<le> b" and "0 < k"
  shows "a * Fin k \<le> b * Fin k"
  using assms
  by (cases a; cases b)
    (simp_all add: rnd_mono mult_right_mono number_le_PosInf number_NegInf_le)

lemma sub_left_anti:
  assumes "a \<le> b"
  shows "Fin c - b \<le> Fin c - a"
  using assms
  by (cases a; cases b) (simp_all add: rnd_mono number_le_PosInf number_NegInf_le)

subsection \<open>The extent of binary64 values\<close>

lemma fold_step_binary64:
  assumes "list_all binary64 vs" and "binary64 acc"
  shows "binary64 (fold min_step vs acc)" and "binary64 (fold max_step vs acc)"
  using assms
proof (induction vs arbitrary: acc)
  case Nil
  { case 1 then show ?case by simp }
  { case 2 then show ?case by simp }
next
  case (Cons v vs)
  { case 1
    then have "binary64 (min_step v acc)" by (auto simp: min_step_def)
    with 1 Cons.IH(1) show ?case by simp }
  { case 2
    then have "binary64 (max_step v acc)" by (auto simp: max_step_def)
    with 2 Cons.IH(2) show ?case by simp }
qed

lemma extent_binary64:
  "list_all binary64 (allX data) \<Longrightarrow> binary64 (minX data)"
  "list_all binary64 (allX data) \<Longrightarrow> binary64 (maxX data)"
  "list_all binary64 (allY data) \<Longrightarrow> binary64 (minY data)"
  "list_all binary64 (allY data) \<Longrightarrow> binary64 (maxY data)"
  by (simp_all add: minX_def maxX_def minY_def maxY_def Math_min_def Math_max_def
      fold_step_binary64 is_double_int)

text \<open>
  The difference of the bounds of a non-degenerate extent is positive: a finite positive
  value, or \<open>+Infinity\<close> when it overflows or a bound is infinite.
\<close>

lemma span_cases:
  assumes "binary64 lo" and "binary64 hi" and "lo < hi"
  shows "(\<exists>a b s. lo = Fin a \<and> hi = Fin b \<and> hi - lo = Fin s \<and> 0 < s) \<or> hi - lo = PosInf"
proof (cases lo)
  case lo: (Fin a)
  show ?thesis
  proof (cases hi)
    case hi: (Fin b)
    with lo assms have "is_double a" "is_double b" "a < b" by simp_all
    then have pos: "Fin 0 < rnd (b - a)" by (rule double_diff_pos)
    show ?thesis
    proof (cases "rnd (b - a)")
      case (Fin s)
      with pos lo hi show ?thesis by simp
    next
      case PosInf
      with lo hi show ?thesis by simp
    qed (use pos in simp_all)
  qed (use lo assms(3) in simp_all)
next
  case NegInf
  with assms(3) show ?thesis by (cases hi) simp_all
qed (use assms(3) in simp_all)

lemma span_finite:
  assumes "binary64 lo" and "binary64 hi" and "lo < hi" and "isFinite (hi - lo)"
  obtains a b s where "lo = Fin a" and "hi = Fin b" and "hi - lo = Fin s" and "0 < s"
  using span_cases [OF assms(1,2,3)] assms(4) by auto

lemma span_infinite:
  assumes "binary64 lo" and "binary64 hi" and "lo < hi" and "\<not> isFinite (hi - lo)"
  shows "hi - lo = PosInf"
  using span_cases [OF assms(1,2,3)] assms(4) by auto

text \<open>The scale at the bounds, for any offset \<open>c\<close> and any length \<open>k\<close> of the axis.\<close>

lemma at_lower_bound:
  assumes "binary64 lo" and "binary64 hi" and "lo < hi"
  shows "(lo - lo) / (hi - lo) * Fin k = (if isFinite lo then Fin 0 else NaN)"
proof (cases lo)
  case (Fin a)
  from span_cases [OF assms] show ?thesis
    by (auto simp: Fin)
next
  case NegInf
  then show ?thesis by simp
qed (use assms(3) in simp_all)

lemma at_upper_bound:
  assumes "binary64 lo" and "binary64 hi" and "lo < hi"
  shows "(hi - lo) / (hi - lo) * Fin k = (if isFinite (hi - lo) then rnd k else NaN)"
  using span_cases [OF assms] by (auto simp: rnd_int)

section \<open>The scale\<close>

text \<open>
  Claim C1, as the spec states it: on a degenerate extent the scale takes 1 for the
  denominator and returns the padding for the sole value. The code has no such branch.
  Counterexample: one series with the single point \<open>(2, 5)\<close>. Its X extent is
  degenerate (\<open>minX = maxX = 2\<close>), and \<open>scaleX 2\<close> is \<open>40 + 0 / 0 * 600\<close>, which is
  NaN and not the padding.
\<close>

theorem scale_degenerate_counterexample:
  "strict_eq (minX [\<lparr>x = [Fin 2], y = Some [Fin 5], label = ''s''\<rparr>])
             (maxX [\<lparr>x = [Fin 2], y = Some [Fin 5], label = ''s''\<rparr>]) \<and>
   scaleX [\<lparr>x = [Fin 2], y = Some [Fin 5], label = ''s''\<rparr>] (Fin 2) = NaN \<and>
   scaleX [\<lparr>x = [Fin 2], y = Some [Fin 5], label = ''s''\<rparr>] (Fin 2) \<noteq> padding"
  by (simp add: scaleX_def extent_defs geometry_defs strict_eq_def)

text \<open>
  Claim C1, amended: on a degenerate X extent (\<open>minX = maxX\<close>) \<open>scaleX\<close> does not
  throw (it is plain arithmetic), but it returns NaN, not the padding, for the sole
  input value, in the legend mode and in the minimal mode; when the extent is finite,
  the denominator \<open>maxX - minX\<close> is 0. Likewise \<open>scaleY\<close> when \<open>minY = maxY\<close>.
\<close>

theorem scale_degenerate:
  "(maxX data = minX data \<longrightarrow>
      scaleX data (minX data) = NaN \<and> scaleX data (minX data) \<noteq> padding \<and>
      scaleX_minimal data (minX data) = NaN \<and>
      scaleX_minimal data (minX data) \<noteq> padding_minimal \<and>
      (isFinite (minX data) \<longrightarrow> maxX data - minX data = Fin 0)) \<and>
   (maxY data = minY data \<longrightarrow>
      scaleY data (minY data) = NaN \<and> scaleY data (minY data) \<noteq> padding \<and>
      scaleY_minimal data (minY data) = NaN \<and>
      scaleY_minimal data (minY data) \<noteq> padding_minimal \<and>
      (isFinite (minY data) \<longrightarrow> maxY data - minY data = Fin 0))"
proof -
  have zero: "isFinite a \<Longrightarrow> a - a = Fin 0" for a
    by (cases a) simp_all
  show ?thesis
    by (simp add: scaleX_def scaleX_minimal_def scaleY_def scaleY_minimal_def
        zero_div_self_minus zero geometry_defs)
qed

text \<open>Witness of C1 (amended): the single point \<open>(2, 5)\<close>, degenerate in X and in Y.\<close>

theorem scale_degenerate_witness:
  "maxX [\<lparr>x = [Fin 2], y = Some [Fin 5], label = ''s''\<rparr>]
     = minX [\<lparr>x = [Fin 2], y = Some [Fin 5], label = ''s''\<rparr>] \<and>
   maxY [\<lparr>x = [Fin 2], y = Some [Fin 5], label = ''s''\<rparr>]
     = minY [\<lparr>x = [Fin 2], y = Some [Fin 5], label = ''s''\<rparr>] \<and>
   minX [\<lparr>x = [Fin 2], y = Some [Fin 5], label = ''s''\<rparr>] = Fin 2 \<and>
   minY [\<lparr>x = [Fin 2], y = Some [Fin 5], label = ''s''\<rparr>] = Fin 5 \<and>
   maxX [\<lparr>x = [Fin 2], y = Some [Fin 5], label = ''s''\<rparr>]
     - minX [\<lparr>x = [Fin 2], y = Some [Fin 5], label = ''s''\<rparr>] = Fin 0 \<and>
   scaleX [\<lparr>x = [Fin 2], y = Some [Fin 5], label = ''s''\<rparr>] (Fin 2) = NaN \<and>
   scaleX_minimal [\<lparr>x = [Fin 2], y = Some [Fin 5], label = ''s''\<rparr>] (Fin 2) = NaN \<and>
   scaleY [\<lparr>x = [Fin 2], y = Some [Fin 5], label = ''s''\<rparr>] (Fin 5) = NaN \<and>
   scaleY_minimal [\<lparr>x = [Fin 2], y = Some [Fin 5], label = ''s''\<rparr>] (Fin 5) = NaN"
proof -
  let ?D = "[\<lparr>x = [Fin 2], y = Some [Fin 5], label = ''s''\<rparr>]"
  have e: "minX ?D = Fin 2" "maxX ?D = Fin 2" "minY ?D = Fin 5" "maxY ?D = Fin 5"
    by (simp_all add: extent_defs)
  from scale_degenerate [of ?D] e show ?thesis by simp
qed

lemma is_double_pow1023: "is_double (2 ^ 1023)" "is_double (- (2 ^ 1023))"
proof -
  show "is_double (2 ^ 1023)"
    unfolding is_double_def by (rule rnd_exact [where m = 1 and k = 1023]) simp_all
  show "is_double (- (2 ^ 1023))"
    unfolding is_double_def by (rule rnd_exact [where m = "- 1" and k = 1023]) simp_all
qed

text \<open>
  Claim C3, as the spec states it: on every non-degenerate X extent, \<open>scaleX maxX\<close> is
  \<open>width - padding - legendWidth\<close>. Counterexamples: with the X values \<open>-2^1023\<close> and
  \<open>2^1023\<close>, both binary64 values, the difference \<open>maxX - minX\<close> overflows to
  \<open>Infinity\<close>, and \<open>scaleX maxX\<close> is \<open>40 + Infinity / Infinity * 600\<close>, which is NaN;
  with the X values 0 and \<open>Infinity\<close> the difference is infinite again and \<open>scaleX maxX\<close>
  is NaN.
\<close>

theorem scaleX_endpoints_counterexample:
  "list_all binary64 (allX [\<lparr>x = [Fin (- (2 ^ 1023)), Fin (2 ^ 1023)], y = None, label = ''s''\<rparr>]) \<and>
   minX [\<lparr>x = [Fin (- (2 ^ 1023)), Fin (2 ^ 1023)], y = None, label = ''s''\<rparr>]
     < maxX [\<lparr>x = [Fin (- (2 ^ 1023)), Fin (2 ^ 1023)], y = None, label = ''s''\<rparr>] \<and>
   scaleX [\<lparr>x = [Fin (- (2 ^ 1023)), Fin (2 ^ 1023)], y = None, label = ''s''\<rparr>]
     (maxX [\<lparr>x = [Fin (- (2 ^ 1023)), Fin (2 ^ 1023)], y = None, label = ''s''\<rparr>]) = NaN \<and>
   scaleX [\<lparr>x = [Fin (- (2 ^ 1023)), Fin (2 ^ 1023)], y = None, label = ''s''\<rparr>]
     (maxX [\<lparr>x = [Fin (- (2 ^ 1023)), Fin (2 ^ 1023)], y = None, label = ''s''\<rparr>])
     \<noteq> width - padding - legendWidth \<and>
   list_all binary64 (allX [\<lparr>x = [Fin 0, PosInf], y = None, label = ''s''\<rparr>]) \<and>
   minX [\<lparr>x = [Fin 0, PosInf], y = None, label = ''s''\<rparr>] < maxX [\<lparr>x = [Fin 0, PosInf], y = None, label = ''s''\<rparr>] \<and>
   scaleX [\<lparr>x = [Fin 0, PosInf], y = None, label = ''s''\<rparr>] (maxX [\<lparr>x = [Fin 0, PosInf], y = None, label = ''s''\<rparr>]) = NaN"
proof -
  have general: "list_all binary64 (allX [\<lparr>x = [Fin (- c), Fin c], y = None, label = ''s''\<rparr>]) \<and>
      minX [\<lparr>x = [Fin (- c), Fin c], y = None, label = ''s''\<rparr>]
        < maxX [\<lparr>x = [Fin (- c), Fin c], y = None, label = ''s''\<rparr>] \<and>
      scaleX [\<lparr>x = [Fin (- c), Fin c], y = None, label = ''s''\<rparr>]
        (maxX [\<lparr>x = [Fin (- c), Fin c], y = None, label = ''s''\<rparr>]) = NaN \<and>
      scaleX [\<lparr>x = [Fin (- c), Fin c], y = None, label = ''s''\<rparr>]
        (maxX [\<lparr>x = [Fin (- c), Fin c], y = None, label = ''s''\<rparr>])
        \<noteq> width - padding - legendWidth"
    if c: "0 < c" "is_double c" "is_double (- c)" "rnd (c - - c) = PosInf" for c
  proof -
    let ?D = "[\<lparr>x = [Fin (- c), Fin c], y = None, label = ''s''\<rparr>]"
    from c(1) have e: "minX ?D = Fin (- c)" "maxX ?D = Fin c"
      by (simp_all add: extent_defs)
    from c(4) have "maxX ?D - minX ?D = PosInf"
      by (simp only: e Fin_arith)
    then have "scaleX ?D (maxX ?D) = NaN"
      by (simp add: scaleX_def)
    with c(1,2,3) show ?thesis
      by (simp add: e geometry_values(2) allX_def)
  qed
  have "rnd (2 ^ 1023 - - (2 ^ 1023)) = PosInf"
    by (rule rnd_overflow) simp
  with is_double_pow1023
  have overflow: "list_all binary64 (allX [\<lparr>x = [Fin (- (2 ^ 1023)), Fin (2 ^ 1023)], y = None, label = ''s''\<rparr>]) \<and>
      minX [\<lparr>x = [Fin (- (2 ^ 1023)), Fin (2 ^ 1023)], y = None, label = ''s''\<rparr>]
        < maxX [\<lparr>x = [Fin (- (2 ^ 1023)), Fin (2 ^ 1023)], y = None, label = ''s''\<rparr>] \<and>
      scaleX [\<lparr>x = [Fin (- (2 ^ 1023)), Fin (2 ^ 1023)], y = None, label = ''s''\<rparr>]
        (maxX [\<lparr>x = [Fin (- (2 ^ 1023)), Fin (2 ^ 1023)], y = None, label = ''s''\<rparr>]) = NaN \<and>
      scaleX [\<lparr>x = [Fin (- (2 ^ 1023)), Fin (2 ^ 1023)], y = None, label = ''s''\<rparr>]
        (maxX [\<lparr>x = [Fin (- (2 ^ 1023)), Fin (2 ^ 1023)], y = None, label = ''s''\<rparr>])
        \<noteq> width - padding - legendWidth"
    by (intro general) simp_all
  have "minX [\<lparr>x = [Fin 0, PosInf], y = None, label = ''s''\<rparr>] = Fin 0" "maxX [\<lparr>x = [Fin 0, PosInf], y = None, label = ''s''\<rparr>] = PosInf"
    by (simp_all add: extent_defs)
  then have infinite: "list_all binary64 (allX [\<lparr>x = [Fin 0, PosInf], y = None, label = ''s''\<rparr>])" "minX [\<lparr>x = [Fin 0, PosInf], y = None, label = ''s''\<rparr>] < maxX [\<lparr>x = [Fin 0, PosInf], y = None, label = ''s''\<rparr>]"
    "scaleX [\<lparr>x = [Fin 0, PosInf], y = None, label = ''s''\<rparr>] (maxX [\<lparr>x = [Fin 0, PosInf], y = None, label = ''s''\<rparr>]) = NaN"
    by (simp_all add: scaleX_def allX_def is_double_int)
  from overflow infinite show ?thesis by blast
qed

text \<open>
  Claim C3, amended: on a non-degenerate X extent (\<open>minX < maxX\<close>) of binary64 values,
  \<open>scaleX minX\<close> is the padding when \<open>minX\<close> is finite, and \<open>scaleX maxX\<close> is
  \<open>width - padding - legendWidth\<close> when the difference \<open>maxX - minX\<close> is finite; it is
  NaN when the difference is infinite, by overflow or with an infinite bound, as is
  \<open>scaleX minX\<close> when \<open>minX\<close> is \<open>-Infinity\<close>. In the legend mode the width is 800, the
  padding 40 and the legend width 120. In the minimal mode, which reserves no legend,
  \<open>scaleX maxX\<close> is the width less the padding.
\<close>

theorem scaleX_endpoints:
  assumes "list_all binary64 (allX data)" and "minX data < maxX data"
  shows "(isFinite (minX data) \<longrightarrow>
            scaleX data (minX data) = padding \<and>
            scaleX_minimal data (minX data) = padding_minimal) \<and>
         (\<not> isFinite (minX data) \<longrightarrow>
            scaleX data (minX data) = NaN \<and> scaleX_minimal data (minX data) = NaN) \<and>
         (isFinite (maxX data - minX data) \<longrightarrow>
            scaleX data (maxX data) = width - padding - legendWidth \<and>
            scaleX_minimal data (maxX data) = width_minimal - padding_minimal) \<and>
         (\<not> isFinite (maxX data - minX data) \<longrightarrow>
            scaleX data (maxX data) = NaN \<and> scaleX_minimal data (maxX data) = NaN) \<and>
         width = Fin 800 \<and> padding = Fin 40 \<and> legendWidth = Fin 120"
proof -
  from assms(1) have b: "binary64 (minX data)" "binary64 (maxX data)"
    by (simp_all add: extent_binary64)
  note lower = at_lower_bound [OF b assms(2)]
  note upper = at_upper_bound [OF b assms(2)]
  have "scaleX data (minX data) = (if isFinite (minX data) then padding else NaN)"
    "scaleX_minimal data (minX data) = (if isFinite (minX data) then padding_minimal else NaN)"
    by (simp_all add: scaleX_def scaleX_minimal_def geometry_values lower geometry_defs rnd_int)
  moreover have "scaleX data (maxX data)
      = (if isFinite (maxX data - minX data) then width - padding - legendWidth else NaN)"
    "scaleX_minimal data (maxX data)
      = (if isFinite (maxX data - minX data) then width_minimal - padding_minimal else NaN)"
    by (simp_all add: scaleX_def scaleX_minimal_def geometry_values upper geometry_defs rnd_int)
  ultimately show ?thesis
    by (simp add: geometry_defs)
qed

text \<open>
  Witness of C3: the X values 0 and 1 map to the pixels 40 and 640 (30 and 370 in the
  minimal mode).
\<close>

theorem scaleX_endpoints_witness:
  "list_all binary64 (allX [\<lparr>x = [Fin 0, Fin 1], y = Some [Fin 3, Fin 7], label = ''s''\<rparr>]) \<and>
   minX [\<lparr>x = [Fin 0, Fin 1], y = Some [Fin 3, Fin 7], label = ''s''\<rparr>]
     < maxX [\<lparr>x = [Fin 0, Fin 1], y = Some [Fin 3, Fin 7], label = ''s''\<rparr>] \<and>
   isFinite (minX [\<lparr>x = [Fin 0, Fin 1], y = Some [Fin 3, Fin 7], label = ''s''\<rparr>]) \<and>
   isFinite (maxX [\<lparr>x = [Fin 0, Fin 1], y = Some [Fin 3, Fin 7], label = ''s''\<rparr>]
     - minX [\<lparr>x = [Fin 0, Fin 1], y = Some [Fin 3, Fin 7], label = ''s''\<rparr>]) \<and>
   scaleX [\<lparr>x = [Fin 0, Fin 1], y = Some [Fin 3, Fin 7], label = ''s''\<rparr>] (Fin 0) = Fin 40 \<and>
   scaleX [\<lparr>x = [Fin 0, Fin 1], y = Some [Fin 3, Fin 7], label = ''s''\<rparr>] (Fin 1) = Fin 640 \<and>
   scaleX_minimal [\<lparr>x = [Fin 0, Fin 1], y = Some [Fin 3, Fin 7], label = ''s''\<rparr>] (Fin 0)
     = Fin 30 \<and>
   scaleX_minimal [\<lparr>x = [Fin 0, Fin 1], y = Some [Fin 3, Fin 7], label = ''s''\<rparr>] (Fin 1)
     = Fin 370"
proof -
  let ?D = "[\<lparr>x = [Fin 0, Fin 1], y = Some [Fin 3, Fin 7], label = ''s''\<rparr>]"
  have e: "minX ?D = Fin 0" "maxX ?D = Fin 1"
    by (simp_all add: extent_defs)
  have h: "list_all binary64 (allX ?D)" "minX ?D < maxX ?D"
    by (simp_all add: e allX_def is_double_int)
  have f: "isFinite (minX ?D)" "isFinite (maxX ?D - minX ?D)"
    by (simp_all add: e rnd_int)
  from scaleX_endpoints [OF h] h f show ?thesis
    by (simp add: e geometry_values geometry_defs rnd_int)
qed

text \<open>
  Claim C4, as the spec states it: \<open>scaleY\<close> is strictly decreasing, and \<open>scaleY maxY\<close>
  is the padding whenever \<open>minY < maxY\<close>. Counterexamples: on the Y extent from 0 to 1 the
  values 0 and \<open>2^-60\<close> both map to the pixel 280, the difference of \<open>2^-60 * 240\<close> being
  lost in the rounding of the subtraction from 280; and on the Y extent from \<open>-2^1023\<close>
  to \<open>2^1023\<close> the difference \<open>maxY - minY\<close> overflows and \<open>scaleY maxY\<close> is NaN.
\<close>

theorem scaleY_inverted_counterexample:
  "list_all binary64 (allY [\<lparr>x = [Fin 0, Fin 1], y = Some [Fin 0, Fin 1], label = ''s''\<rparr>]) \<and>
   minY [\<lparr>x = [Fin 0, Fin 1], y = Some [Fin 0, Fin 1], label = ''s''\<rparr>]
     < maxY [\<lparr>x = [Fin 0, Fin 1], y = Some [Fin 0, Fin 1], label = ''s''\<rparr>] \<and>
   is_double (1 / 2 ^ 60) \<and> (0::real) < 1 / 2 ^ 60 \<and>
   scaleY [\<lparr>x = [Fin 0, Fin 1], y = Some [Fin 0, Fin 1], label = ''s''\<rparr>] (Fin 0) = Fin 280 \<and>
   scaleY [\<lparr>x = [Fin 0, Fin 1], y = Some [Fin 0, Fin 1], label = ''s''\<rparr>] (Fin (1 / 2 ^ 60))
     = Fin 280 \<and>
   \<not> scaleY [\<lparr>x = [Fin 0, Fin 1], y = Some [Fin 0, Fin 1], label = ''s''\<rparr>] (Fin (1 / 2 ^ 60))
       < scaleY [\<lparr>x = [Fin 0, Fin 1], y = Some [Fin 0, Fin 1], label = ''s''\<rparr>] (Fin 0) \<and>
   list_all binary64 (allY [\<lparr>x = [Fin 0, Fin 1], y = Some [Fin (- (2 ^ 1023)), Fin (2 ^ 1023)], label = ''s''\<rparr>]) \<and>
   minY [\<lparr>x = [Fin 0, Fin 1], y = Some [Fin (- (2 ^ 1023)), Fin (2 ^ 1023)], label = ''s''\<rparr>]
     < maxY [\<lparr>x = [Fin 0, Fin 1], y = Some [Fin (- (2 ^ 1023)), Fin (2 ^ 1023)], label = ''s''\<rparr>] \<and>
   scaleY [\<lparr>x = [Fin 0, Fin 1], y = Some [Fin (- (2 ^ 1023)), Fin (2 ^ 1023)], label = ''s''\<rparr>]
     (maxY [\<lparr>x = [Fin 0, Fin 1], y = Some [Fin (- (2 ^ 1023)), Fin (2 ^ 1023)], label = ''s''\<rparr>]) = NaN \<and>
   scaleY [\<lparr>x = [Fin 0, Fin 1], y = Some [Fin (- (2 ^ 1023)), Fin (2 ^ 1023)], label = ''s''\<rparr>]
     (maxY [\<lparr>x = [Fin 0, Fin 1], y = Some [Fin (- (2 ^ 1023)), Fin (2 ^ 1023)], label = ''s''\<rparr>]) \<noteq> padding"
proof -
  let ?D = "[\<lparr>x = [Fin 0, Fin 1], y = Some [Fin 0, Fin 1], label = ''s''\<rparr>]"
  have e: "minY ?D = Fin 0" "maxY ?D = Fin 1"
    by (simp_all add: extent_defs)
  have at: "scaleY ?D (Fin w) = Fin 280"
    if "rnd w = Fin w" "rnd (w * 240) = Fin t" "rnd (280 - t) = Fin 280" for w t
    using that by (simp add: scaleY_def e geometry_values rnd_int)
  have w: "rnd (1 / 2 ^ 60) = Fin (1 / 2 ^ 60)"
    by (simp add: rnd_dyadic [where j = 60])
  have t: "rnd (1 / 2 ^ 60 * 240) = Fin (240 / 2 ^ 60)"
    by (simp add: rnd_dyadic [where j = 60])
  have small: "scaleY ?D (Fin (1 / 2 ^ 60)) = Fin 280"
    using w t rnd_absorbed by (rule at)
  have zero: "scaleY ?D (Fin 0) = Fin 280"
    by (rule at [where t = 0]) (simp_all add: rnd_int)
  have big: "list_all binary64 (allY [\<lparr>x = [Fin 0, Fin 1], y = Some [Fin (- c), Fin c], label = ''s''\<rparr>]) \<and>
      minY [\<lparr>x = [Fin 0, Fin 1], y = Some [Fin (- c), Fin c], label = ''s''\<rparr>]
        < maxY [\<lparr>x = [Fin 0, Fin 1], y = Some [Fin (- c), Fin c], label = ''s''\<rparr>] \<and>
      scaleY [\<lparr>x = [Fin 0, Fin 1], y = Some [Fin (- c), Fin c], label = ''s''\<rparr>]
        (maxY [\<lparr>x = [Fin 0, Fin 1], y = Some [Fin (- c), Fin c], label = ''s''\<rparr>]) = NaN \<and>
      scaleY [\<lparr>x = [Fin 0, Fin 1], y = Some [Fin (- c), Fin c], label = ''s''\<rparr>]
        (maxY [\<lparr>x = [Fin 0, Fin 1], y = Some [Fin (- c), Fin c], label = ''s''\<rparr>]) \<noteq> padding"
    if c: "0 < c" "is_double c" "is_double (- c)" "rnd (c - - c) = PosInf" for c
  proof -
    let ?B = "[\<lparr>x = [Fin 0, Fin 1], y = Some [Fin (- c), Fin c], label = ''s''\<rparr>]"
    from c(1) have b: "minY ?B = Fin (- c)" "maxY ?B = Fin c"
      by (simp_all add: extent_defs)
    from c(4) have "maxY ?B - minY ?B = PosInf"
      by (simp only: b Fin_arith)
    then have "scaleY ?B (maxY ?B) = NaN"
      by (simp add: scaleY_def)
    with c(1,2,3) show ?thesis
      by (simp add: b allY_def padding_def)
  qed
  have "rnd (2 ^ 1023 - - (2 ^ 1023)) = PosInf"
    by (rule rnd_overflow) simp
  with is_double_pow1023
  have overflow: "list_all binary64 (allY [\<lparr>x = [Fin 0, Fin 1], y = Some [Fin (- (2 ^ 1023)), Fin (2 ^ 1023)], label = ''s''\<rparr>]) \<and>
      minY [\<lparr>x = [Fin 0, Fin 1], y = Some [Fin (- (2 ^ 1023)), Fin (2 ^ 1023)], label = ''s''\<rparr>]
        < maxY [\<lparr>x = [Fin 0, Fin 1], y = Some [Fin (- (2 ^ 1023)), Fin (2 ^ 1023)], label = ''s''\<rparr>] \<and>
      scaleY [\<lparr>x = [Fin 0, Fin 1], y = Some [Fin (- (2 ^ 1023)), Fin (2 ^ 1023)], label = ''s''\<rparr>]
        (maxY [\<lparr>x = [Fin 0, Fin 1], y = Some [Fin (- (2 ^ 1023)), Fin (2 ^ 1023)], label = ''s''\<rparr>]) = NaN \<and>
      scaleY [\<lparr>x = [Fin 0, Fin 1], y = Some [Fin (- (2 ^ 1023)), Fin (2 ^ 1023)], label = ''s''\<rparr>]
        (maxY [\<lparr>x = [Fin 0, Fin 1], y = Some [Fin (- (2 ^ 1023)), Fin (2 ^ 1023)], label = ''s''\<rparr>]) \<noteq> padding"
    by (intro big) simp_all
  have unit: "list_all binary64 (allY ?D)" "minY ?D < maxY ?D" "is_double (1 / 2 ^ 60)"
    "(0::real) < 1 / 2 ^ 60"
    using w by (simp_all add: e is_double_def allY_def rnd_int)
  have "\<not> scaleY ?D (Fin (1 / 2 ^ 60)) < scaleY ?D (Fin 0)"
    unfolding small zero by simp
  with unit small zero overflow show ?thesis by blast
qed

text \<open>
  Claim C4, amended: on a Y extent with \<open>minY < maxY\<close>, of binary64 values, \<open>scaleY v\<close>
  is \<open>height - padding - (v - minY) / (maxY - minY) * (height - 2 * padding)\<close> in the
  arithmetic of the code. When the difference \<open>maxY - minY\<close> is finite, \<open>scaleY minY\<close>
  is \<open>height - padding\<close>, \<open>scaleY maxY\<close> is the padding, above it, and \<open>scaleY\<close> is
  decreasing on the finite values, though not strictly: a larger data value never lies
  lower on the canvas, and no finite value maps to NaN. When the difference is infinite,
  by overflow or with an infinite bound, \<open>scaleY maxY\<close> is NaN.
\<close>

theorem scaleY_inverted:
  assumes "list_all binary64 (allY data)" and "minY data < maxY data"
  shows "scaleY data v
           = height - padding - (v - minY data) / (maxY data - minY data)
               * (height - Fin 2 * padding) \<and>
         (isFinite (maxY data - minY data) \<longrightarrow>
            scaleY data (minY data) = height - padding \<and>
            scaleY data (maxY data) = padding \<and>
            scaleY data (maxY data) < scaleY data (minY data) \<and>
            (\<forall>u w. u \<le> w \<longrightarrow> scaleY data (Fin w) \<le> scaleY data (Fin u)) \<and>
            (\<forall>u. scaleY data (Fin u) \<noteq> NaN)) \<and>
         (\<not> isFinite (maxY data - minY data) \<longrightarrow> scaleY data (maxY data) = NaN)"
proof -
  from assms(1) have b: "binary64 (minY data)" "binary64 (maxY data)"
    by (simp_all add: extent_binary64)
  have formula: "scaleY data v
      = height - padding - (v - minY data) / (maxY data - minY data)
          * (height - Fin 2 * padding)"
    by (simp only: scaleY_def)
  have overflow: "scaleY data (maxY data) = NaN" if "\<not> isFinite (maxY data - minY data)"
    using that by (simp add: scaleY_def geometry_values at_upper_bound [OF b assms(2)])
  have finite: "scaleY data (minY data) = height - padding \<and>
      scaleY data (maxY data) = padding \<and>
      scaleY data (maxY data) < scaleY data (minY data) \<and>
      (\<forall>u w. u \<le> w \<longrightarrow> scaleY data (Fin w) \<le> scaleY data (Fin u)) \<and>
      (\<forall>u. scaleY data (Fin u) \<noteq> NaN)"
    if span: "isFinite (maxY data - minY data)"
  proof -
    from b assms(2) span obtain a c s
      where ab: "minY data = Fin a" "maxY data = Fin c"
        and s: "maxY data - minY data = Fin s" and pos: "0 < s"
      by (rule span_finite)
    have scale: "scaleY data t = Fin 280 - (t - Fin a) / Fin s * Fin 240" for t
      by (simp only: scaleY_def geometry_values s) (simp only: ab)
    have decreasing: "scaleY data (Fin w) \<le> scaleY data (Fin u)" if "u \<le> w" for u w
    proof -
      from that have "Fin u \<le> Fin w" by simp
      then have "Fin u - Fin a \<le> Fin w - Fin a"
        by (rule sub_right_mono)
      then have "(Fin u - Fin a) / Fin s \<le> (Fin w - Fin a) / Fin s"
        using pos by (rule div_right_mono)
      then have "(Fin u - Fin a) / Fin s * Fin 240 \<le> (Fin w - Fin a) / Fin s * Fin 240"
        by (rule mult_right_mono_number) simp
      then have "Fin 280 - (Fin w - Fin a) / Fin s * Fin 240
                   \<le> Fin 280 - (Fin u - Fin a) / Fin s * Fin 240"
        by (rule sub_left_anti)
      then show ?thesis by (simp only: scale)
    qed
    have defined: "scaleY data (Fin u) \<noteq> NaN" for u
      using decreasing [of u u] by (cases "scaleY data (Fin u)") simp_all
    from ab(1) have "isFinite (minY data)" by simp
    with span have ends: "scaleY data (minY data) = height - padding"
      "scaleY data (maxY data) = padding"
      by (simp_all add: scaleY_def geometry_values at_lower_bound [OF b assms(2)]
          at_upper_bound [OF b assms(2)] geometry_defs rnd_int)
    then have "scaleY data (maxY data) < scaleY data (minY data)"
      by (simp add: geometry_values geometry_defs rnd_int)
    with ends decreasing defined show ?thesis by blast
  qed
  from formula finite overflow show ?thesis by blast
qed

text \<open>Witness of C4: Y values from 3 to 7; 3, 4 and 7 map to the pixels 280, 220 and 40.\<close>

theorem scaleY_inverted_witness:
  "list_all binary64 (allY [\<lparr>x = [Fin 0, Fin 1], y = Some [Fin 3, Fin 7], label = ''s''\<rparr>]) \<and>
   minY [\<lparr>x = [Fin 0, Fin 1], y = Some [Fin 3, Fin 7], label = ''s''\<rparr>]
     < maxY [\<lparr>x = [Fin 0, Fin 1], y = Some [Fin 3, Fin 7], label = ''s''\<rparr>] \<and>
   isFinite (maxY [\<lparr>x = [Fin 0, Fin 1], y = Some [Fin 3, Fin 7], label = ''s''\<rparr>]
     - minY [\<lparr>x = [Fin 0, Fin 1], y = Some [Fin 3, Fin 7], label = ''s''\<rparr>]) \<and>
   scaleY [\<lparr>x = [Fin 0, Fin 1], y = Some [Fin 3, Fin 7], label = ''s''\<rparr>] (Fin 4) = Fin 220 \<and>
   scaleY [\<lparr>x = [Fin 0, Fin 1], y = Some [Fin 3, Fin 7], label = ''s''\<rparr>] (Fin 3) = Fin 280 \<and>
   scaleY [\<lparr>x = [Fin 0, Fin 1], y = Some [Fin 3, Fin 7], label = ''s''\<rparr>] (Fin 7) = Fin 40 \<and>
   scaleY [\<lparr>x = [Fin 0, Fin 1], y = Some [Fin 3, Fin 7], label = ''s''\<rparr>] (Fin 5)
     \<le> scaleY [\<lparr>x = [Fin 0, Fin 1], y = Some [Fin 3, Fin 7], label = ''s''\<rparr>] (Fin 4)"
proof -
  let ?D = "[\<lparr>x = [Fin 0, Fin 1], y = Some [Fin 3, Fin 7], label = ''s''\<rparr>]"
  have e: "minY ?D = Fin 3" "maxY ?D = Fin 7"
    by (simp_all add: extent_defs)
  have h: "list_all binary64 (allY ?D)" "minY ?D < maxY ?D"
    by (simp_all add: e allY_def is_double_int)
  have f: "isFinite (maxY ?D - minY ?D)"
    by (simp add: e rnd_int)
  note all = scaleY_inverted [OF h, of "Fin 4"]
  from all f have vals:
    "scaleY ?D (Fin 4) = Fin 220" "scaleY ?D (Fin 3) = Fin 280" "scaleY ?D (Fin 7) = Fin 40"
    by (simp_all add: e geometry_values geometry_defs rnd_int rnd_dyadic [where j = 2])
  from all f have "\<forall>u w. u \<le> w \<longrightarrow> scaleY ?D (Fin w) \<le> scaleY ?D (Fin u)"
    by blast
  then have "scaleY ?D (Fin 5) \<le> scaleY ?D (Fin 4)"
    by simp
  with h f vals show ?thesis by simp
qed

lemma allY_no_y: "\<forall>d \<in> set data. y d = None \<Longrightarrow> allY data = []"
  by (induction data) (simp_all add: allY_def)

text \<open>
  Claim C10: when no series carries a \<open>y\<close> array, the flattened list of Y values is
  empty, the Y extent is \<open>minY = 0\<close> and \<open>maxY = 1\<close>, the denominator of \<open>scaleY\<close>
  is 1, and \<open>scaleY\<close> maps 0 to \<open>height - padding\<close> and 1 to the padding, in the
  legend mode and in the minimal mode.
\<close>

theorem scaleY_default_extent:
  assumes "\<forall>d \<in> set data. y d = None"
  shows "allY data = [] \<and> minY data = Fin 0 \<and> maxY data = Fin 1 \<and>
         maxY data - minY data = Fin 1 \<and>
         scaleY data (Fin 0) = height - padding \<and> scaleY data (Fin 1) = padding \<and>
         scaleY_minimal data (Fin 0) = height_minimal - padding_minimal \<and>
         scaleY_minimal data (Fin 1) = padding_minimal"
proof -
  from assms have empty: "allY data = []" by (rule allY_no_y)
  then have e: "minY data = Fin 0" "maxY data = Fin 1"
    by (simp_all add: minY_def maxY_def)
  show ?thesis
    by (simp add: empty e scaleY_def scaleY_minimal_def geometry_values geometry_defs rnd_int)
qed

text \<open>Witness of C10: a single series without \<open>y\<close>.\<close>

theorem scaleY_default_extent_witness:
  "y \<lparr>x = [Fin 0, Fin 1], y = None, label = ''linspace''\<rparr> = None \<and>
   minY [\<lparr>x = [Fin 0, Fin 1], y = None, label = ''linspace''\<rparr>] = Fin 0 \<and>
   maxY [\<lparr>x = [Fin 0, Fin 1], y = None, label = ''linspace''\<rparr>] = Fin 1 \<and>
   scaleY [\<lparr>x = [Fin 0, Fin 1], y = None, label = ''linspace''\<rparr>] (Fin 0) = Fin 280 \<and>
   scaleY [\<lparr>x = [Fin 0, Fin 1], y = None, label = ''linspace''\<rparr>] (Fin 1) = Fin 40 \<and>
   scaleY_minimal [\<lparr>x = [Fin 0, Fin 1], y = None, label = ''linspace''\<rparr>] (Fin 0) = Fin 170 \<and>
   scaleY_minimal [\<lparr>x = [Fin 0, Fin 1], y = None, label = ''linspace''\<rparr>] (Fin 1) = Fin 30"
proof -
  let ?D = "[\<lparr>x = [Fin 0, Fin 1], y = None, label = ''linspace''\<rparr>]"
  have h: "\<forall>d \<in> set ?D. y d = None" by simp
  from scaleY_default_extent [OF h] show ?thesis
    by (simp add: geometry_values geometry_defs rnd_int)
qed

section \<open>The extent bounds the data\<close>






section \<open>The drawing\<close>

lemma sequence_map_Inr_id: "sequence (map Inr vs) = Inr vs"
  by (induction vs) simp_all

lemma sequence_Inr_D: "sequence rs = Inr vs \<Longrightarrow> rs = map Inr vs"
  by (induction rs arbitrary: vs) (auto split: sum.splits)

lemma sequence_Inr_iff: "sequence rs = Inr vs \<longleftrightarrow> rs = map Inr vs"
  using sequence_Inr_D sequence_map_Inr_id by metis

lemma sequence_map_Inr:
  assumes "\<And>a. a \<in> set as \<Longrightarrow> f a = Inr (g a)"
  shows "sequence (map f as) = Inr (map g as)"
  using assms by (simp add: sequence_Inr_iff)

lemma length_palette: "length palette = 4"
  by (simp add: palette_def)

lemma marker_cases:
  assumes "marker data i ys N (j, xv) = Inr m"
  shows "(\<exists>cx cy. m = G [Circle cx cy (palette ! (i mod 4))] \<and> \<not> label_shown N j) \<or>
         (\<exists>cx cy ty v. m = G [Circle cx cy (palette ! (i mod 4)),
                               Text cx ty (palette ! (i mod 4)) (ToFixed2 v)]
            \<and> label_shown N j \<and> y_at ys j = Some v)"
  using assms by (auto simp: marker_def Let_def split: if_splits option.splits)

lemma marker_defined:
  assumes "j < length ys"
  shows "\<exists>m. marker data i ys N (j, xv) = Inr m"
  using assms by (simp add: marker_def Let_def y_at_def)

lemma set_enumerate_index: "(j, xv) \<in> set (enumerate 0 xs) \<Longrightarrow> j < length xs"
  by (simp add: in_set_enumerate_eq)

text \<open>The markers of a series whose \<open>y\<close> covers its \<open>x\<close>.\<close>

lemma markers_defined:
  assumes "length xs \<le> length ys"
  shows "\<exists>ms. sequence (map (marker data i ys N) (enumerate 0 xs)) = Inr ms"
proof -
  have "\<forall>a \<in> set (enumerate 0 xs). \<exists>m. marker data i ys N a = Inr m"
  proof
    fix a assume mem: "a \<in> set (enumerate 0 xs)"
    obtain j xv where a: "a = (j, xv)"
      by (cases a)
    with mem have "j < length xs"
      by (simp add: in_set_enumerate_eq)
    with assms have "j < length ys" by simp
    then show "\<exists>m. marker data i ys N a = Inr m"
      unfolding a by (rule marker_defined)
  qed
  then obtain g where g: "\<And>a. a \<in> set (enumerate 0 xs) \<Longrightarrow> marker data i ys N a = Inr (g a)"
    by metis
  then have "sequence (map (marker data i ys N) (enumerate 0 xs)) = Inr (map g (enumerate 0 xs))"
    by (rule sequence_map_Inr)
  then show ?thesis ..
qed

lemma markers_nth:
  assumes "sequence (map (marker data i ys N) (enumerate 0 xs)) = Inr ms"
  shows "length ms = length xs"
    and "j < length xs \<Longrightarrow> marker data i ys N (j, xs ! j) = Inr (ms ! j)"
proof -
  from assms have eq: "map (marker data i ys N) (enumerate 0 xs) = map Inr ms"
    by (simp add: sequence_Inr_iff)
  then have "length (map (marker data i ys N) (enumerate 0 xs)) = length (map Inr ms)"
    by simp
  then show len: "length ms = length xs" by simp
  assume j: "j < length xs"
  with eq have "map (marker data i ys N) (enumerate 0 xs) ! j = map Inr ms ! j"
    by simp
  with j len show "marker data i ys N (j, xs ! j) = Inr (ms ! j)"
    by (simp add: nth_enumerate_eq)
qed

lemma markers_origin:
  assumes "sequence (map (marker data i ys N) (enumerate 0 xs)) = Inr ms" and "m \<in> set ms"
  shows "\<exists>j xv. marker data i ys N (j, xv) = Inr m"
proof -
  from assms(1) have "map (marker data i ys N) (enumerate 0 xs) = map Inr ms"
    by (rule sequence_Inr_D)
  with assms(2) have "Inr m \<in> set (map (marker data i ys N) (enumerate 0 xs))"
    by simp
  then obtain a where "marker data i ys N a = Inr m" by auto
  then show ?thesis by (cases a) auto
qed

lemma series_Some:
  assumes "y d = Some ys"
  shows "series data (i, d) = Inr out \<longleftrightarrow>
         (\<exists>ms. sequence (map (marker data i ys (length (x d))) (enumerate 0 (x d))) = Inr ms \<and>
               out = [G (Polyline (palette ! (i mod 4)) (map (point data ys) (enumerate 0 (x d)))
                        # ms)])"
  using assms by (auto simp: series_def split: sum.splits)

lemma series_None: "y d = None \<Longrightarrow> series data (i, d) = Inr []"
  by (simp add: series_def)

lemma series_defined:
  assumes "covered d"
  shows "\<exists>out. series data (i, d) = Inr out"
proof (cases "y d")
  case None
  then show ?thesis by (simp add: series_None)
next
  case (Some ys)
  with assms have "length (x d) \<le> length ys" by (simp add: covered_def)
  then obtain ms
    where "sequence (map (marker data i ys (length (x d))) (enumerate 0 (x d))) = Inr ms"
    using markers_defined by blast
  with Some show ?thesis by (simp add: series_Some)
qed

lemma SimplePlot_structure:
  assumes "SimplePlot data = Inr out"
  shows "\<exists>drawn. out = gridlines data @ axes @ axis_labels @ concat drawn @ legend data \<and>
           length drawn = length data \<and>
           (\<forall>i < length data. series data (i, data ! i) = Inr (drawn ! i))"
proof -
  from assms obtain drawn
    where seq: "sequence (map (series data) (enumerate 0 data)) = Inr drawn"
      and out: "out = gridlines data @ axes @ axis_labels @ concat drawn @ legend data"
    by (auto simp: SimplePlot_def split: sum.splits)
  from seq have eq: "map (series data) (enumerate 0 data) = map Inr drawn"
    by (simp add: sequence_Inr_iff)
  then have "length (map (series data) (enumerate 0 data)) = length (map Inr drawn)"
    by simp
  then have len: "length drawn = length data" by simp
  have "series data (i, data ! i) = Inr (drawn ! i)" if "i < length data" for i
  proof -
    from eq have "map (series data) (enumerate 0 data) ! i = map Inr drawn ! i" by simp
    with that len show ?thesis by (simp add: nth_enumerate_eq)
  qed
  with out len show ?thesis by blast
qed

lemma SimplePlot_defined:
  assumes "list_all covered data"
  shows "\<exists>out. SimplePlot data = Inr out"
proof -
  have "\<forall>a \<in> set (enumerate 0 data). \<exists>out. series data a = Inr out"
  proof
    fix a assume mem: "a \<in> set (enumerate 0 data)"
    obtain i d where a: "a = (i, d)" by (cases a)
    with mem have "d \<in> set data"
      by (auto simp: in_set_enumerate_eq)
    with assms have "covered d" by (simp add: list_all_iff)
    then show "\<exists>out. series data a = Inr out"
      unfolding a by (rule series_defined)
  qed
  then obtain g where "\<And>a. a \<in> set (enumerate 0 data) \<Longrightarrow> series data a = Inr (g a)"
    by metis
  then have "sequence (map (series data) (enumerate 0 data)) = Inr (map g (enumerate 0 data))"
    by (rule sequence_map_Inr)
  then show ?thesis by (simp add: SimplePlot_def)
qed



section \<open>Value labels\<close>

lemma ceil_twentieth:
  assumes "20 < N"
  shows "0 < nat \<lceil>real N / 20\<rceil>" and "N \<le> 20 * nat \<lceil>real N / 20\<rceil>"
proof -
  have pos: "0 < \<lceil>real N / 20\<rceil>"
    using assms by (simp add: ceiling_less_iff)
  then show "0 < nat \<lceil>real N / 20\<rceil>" by simp
  have "real N / 20 \<le> real_of_int \<lceil>real N / 20\<rceil>"
    by (rule le_of_int_ceiling)
  then have "real N \<le> 20 * real_of_int \<lceil>real N / 20\<rceil>"
    by linarith
  also have "\<dots> = real (20 * nat \<lceil>real N / 20\<rceil>)"
    using pos by simp
  finally show "N \<le> 20 * nat \<lceil>real N / 20\<rceil>"
    by (simp only: of_nat_le_iff)
qed

lemma multiples_below:
  assumes "0 < k" and "N \<le> 20 * k"
  shows "length (filter (\<lambda>j. j mod k = 0) [0..<N]) \<le> 20"
proof -
  let ?S = "{j. j < N \<and> j mod k = 0}"
  have "{i. i < length [0..<N] \<and> [0..<N] ! i mod k = 0} = ?S"
    by auto
  then have "length (filter (\<lambda>j. j mod k = 0) [0..<N]) = card ?S"
    by (simp only: length_filter_conv_card)
  also have "card ?S \<le> card {..<20::nat}"
  proof (rule card_inj_on_le)
    show "inj_on (\<lambda>j. j div k) ?S"
    proof (rule inj_onI)
      fix a b assume "a \<in> ?S" "b \<in> ?S" and same: "a div k = b div k"
      then have "a mod k = 0" "b mod k = 0" by simp_all
      then have "a = a div k * k" "b = b div k * k"
        by (simp_all add: mod_eq_0_iff_dvd)
      with same show "a = b" by metis
    qed
    show "(\<lambda>j. j div k) ` ?S \<subseteq> {..<20}"
    proof
      fix q assume "q \<in> (\<lambda>j. j div k) ` ?S"
      then obtain j where "j < N" and q: "q = j div k" by auto
      with assms(2) have "j < 20 * k" by simp
      with assms(1) have "j div k < 20"
        by (simp add: div_less_iff_less_mult)
      with q show "q \<in> {..<20}" by simp
    qed
    show "finite {..<20::nat}" by simp
  qed
  finally show ?thesis by simp
qed

lemma labels_at_most_20: "length (filter (label_shown N) [0..<N]) \<le> 20"
proof (cases "N \<le> 20")
  case True
  have "length (filter (label_shown N) [0..<N]) \<le> length [0..<N]"
    by (rule length_filter_le)
  with True show ?thesis by simp
next
  case False
  then have "20 < N" by simp
  then have k: "0 < nat \<lceil>real N / 20\<rceil>" "N \<le> 20 * nat \<lceil>real N / 20\<rceil>"
    by (rule ceil_twentieth)+
  from False have "label_shown N = (\<lambda>j. j mod nat \<lceil>real N / 20\<rceil> = 0)"
    by (simp add: label_shown_def fun_eq_iff)
  with multiples_below [OF k] show ?thesis by simp
qed

lemma marker_label:
  assumes "marker data i ys N (j, xv) = Inr m"
  shows "has_value_label m = label_shown N j"
  using marker_cases [OF assms] by auto

lemma markers_labelled:
  assumes "sequence (map (marker data i ys N) (enumerate 0 xs)) = Inr ms"
  shows "length (filter has_value_label ms) = length (filter (label_shown N) [0..<length xs])"
proof -
  have len: "length ms = length xs"
    using assms by (rule markers_nth(1))
  have "map has_value_label ms = map (label_shown N) [0..<length xs]"
  proof (rule nth_equalityI)
    show "length (map has_value_label ms) = length (map (label_shown N) [0..<length xs])"
      by (simp add: len)
    fix j assume "j < length (map has_value_label ms)"
    then have j: "j < length xs" by (simp add: len)
    then have "marker data i ys N (j, xs ! j) = Inr (ms ! j)"
      using assms by (simp add: markers_nth(2))
    then have "has_value_label (ms ! j) = label_shown N j"
      by (rule marker_label)
    with j show "map has_value_label ms ! j = map (label_shown N) [0..<length xs] ! j"
      by (simp add: len)
  qed
  then have "length (filter id (map has_value_label ms))
               = length (filter id (map (label_shown N) [0..<length xs]))"
    by simp
  then show ?thesis
    by (simp add: filter_map comp_def)
qed

text \<open>
  Claim C6: a render of series whose \<open>y\<close> covers their \<open>x\<close> succeeds, and in every
  drawing that \<open>SimplePlot\<close> returns, the group of each series that has a \<open>y\<close> array,
  with \<open>N\<close> points, holds the polyline and one marker per point; the marker of the
  point \<open>j\<close> carries a value label exactly when \<open>N \<le> 20\<close> or
  \<open>j mod ceil (N / 20) = 0\<close>, the label is \<^verbatim>\<open>toFixed(2)\<close> of the \<open>y\<close> value of the point,
  and at most 20 markers of the series carry one.
\<close>

theorem value_labels_downsampled:
  "(list_all covered data \<longrightarrow> (\<exists>out. SimplePlot data = Inr out)) \<and>
   (\<forall>out. SimplePlot data = Inr out \<longrightarrow>
      (\<exists>drawn. out = gridlines data @ axes @ axis_labels @ concat drawn @ legend data \<and>
         length drawn = length data \<and>
         (\<forall>i < length data. \<forall>ys. y (data ! i) = Some ys \<longrightarrow>
            (\<exists>poly ms. drawn ! i = [G (poly # ms)] \<and>
               length ms = length (x (data ! i)) \<and>
               (\<forall>j < length (x (data ! i)).
                  has_value_label (ms ! j)
                    = (length (x (data ! i)) \<le> 20
                       \<or> j mod nat \<lceil>real (length (x (data ! i))) / 20\<rceil> = 0)) \<and>
               (\<forall>j < length (x (data ! i)). has_value_label (ms ! j) \<longrightarrow>
                  j < length ys \<and>
                  (\<exists>cx cy ty. ms ! j = G [Circle cx cy (palette ! (i mod 4)),
                     Text cx ty (palette ! (i mod 4)) (ToFixed2 (ys ! j))])) \<and>
               length (filter has_value_label ms) \<le> 20))))"
proof (intro conjI allI impI)
  assume "list_all covered data"
  then show "\<exists>out. SimplePlot data = Inr out" by (rule SimplePlot_defined)
next
  fix out assume "SimplePlot data = Inr out"
  from SimplePlot_structure [OF this] obtain drawn
    where out: "out = gridlines data @ axes @ axis_labels @ concat drawn @ legend data"
      and len: "length drawn = length data"
      and ser: "\<forall>i < length data. series data (i, data ! i) = Inr (drawn ! i)"
    by blast
  have "\<exists>poly ms. drawn ! i = [G (poly # ms)] \<and>
          length ms = length (x (data ! i)) \<and>
          (\<forall>j < length (x (data ! i)).
             has_value_label (ms ! j)
               = (length (x (data ! i)) \<le> 20
                  \<or> j mod nat \<lceil>real (length (x (data ! i))) / 20\<rceil> = 0)) \<and>
          (\<forall>j < length (x (data ! i)). has_value_label (ms ! j) \<longrightarrow>
             j < length ys \<and>
             (\<exists>cx cy ty. ms ! j = G [Circle cx cy (palette ! (i mod 4)),
                Text cx ty (palette ! (i mod 4)) (ToFixed2 (ys ! j))])) \<and>
          length (filter has_value_label ms) \<le> 20"
    if i: "i < length data" and ys: "y (data ! i) = Some ys" for i ys
  proof -
    let ?d = "data ! i"
    let ?N = "length (x ?d)"
    from ser i have "series data (i, ?d) = Inr (drawn ! i)" by simp
    with ys obtain ms
      where ms: "sequence (map (marker data i ys ?N) (enumerate 0 (x ?d))) = Inr ms"
        and group: "drawn ! i
              = [G (Polyline (palette ! (i mod 4)) (map (point data ys) (enumerate 0 (x ?d)))
                    # ms)]"
      by (auto simp: series_Some)
    have size: "length ms = ?N"
      using ms by (rule markers_nth(1))
    have at: "marker data i ys ?N (j, x ?d ! j) = Inr (ms ! j)" if "j < ?N" for j
      using ms that by (rule markers_nth(2))
    have shown: "has_value_label (ms ! j) = (?N \<le> 20 \<or> j mod nat \<lceil>real ?N / 20\<rceil> = 0)"
      if "j < ?N" for j
    proof -
      from at [OF that] have "has_value_label (ms ! j) = label_shown ?N j"
        by (rule marker_label)
      then show ?thesis by (simp add: label_shown_def)
    qed
    have shape: "j < length ys \<and>
        (\<exists>cx cy ty. ms ! j = G [Circle cx cy (palette ! (i mod 4)),
           Text cx ty (palette ! (i mod 4)) (ToFixed2 (ys ! j))])"
      if "j < ?N" and "has_value_label (ms ! j)" for j
      using marker_cases [OF at [OF that(1)]] that(2)
      by (auto simp: y_at_def split: if_splits)
    have "length (filter has_value_label ms) \<le> 20"
      using markers_labelled [OF ms] labels_at_most_20 [of ?N] by simp
    with group size shown shape show ?thesis by blast
  qed
  with out len
  show "\<exists>drawn. out = gridlines data @ axes @ axis_labels @ concat drawn @ legend data \<and>
         length drawn = length data \<and>
         (\<forall>i < length data. \<forall>ys. y (data ! i) = Some ys \<longrightarrow>
            (\<exists>poly ms. drawn ! i = [G (poly # ms)] \<and>
               length ms = length (x (data ! i)) \<and>
               (\<forall>j < length (x (data ! i)).
                  has_value_label (ms ! j)
                    = (length (x (data ! i)) \<le> 20
                       \<or> j mod nat \<lceil>real (length (x (data ! i))) / 20\<rceil> = 0)) \<and>
               (\<forall>j < length (x (data ! i)). has_value_label (ms ! j) \<longrightarrow>
                  j < length ys \<and>
                  (\<exists>cx cy ty. ms ! j = G [Circle cx cy (palette ! (i mod 4)),
                     Text cx ty (palette ! (i mod 4)) (ToFixed2 (ys ! j))])) \<and>
               length (filter has_value_label ms) \<le> 20))"
    by blast
qed

text \<open>
  Witness of C6: the plot of one series of 21 points. The step is \<open>ceil (21 / 20) = 2\<close>:
  in the drawing the points 0 and 2 carry a label, that of the point 2 being
  \<^verbatim>\<open>toFixed(2)\<close> of its \<open>y\<close> value, and the point 1 carries none.
\<close>

theorem value_labels_downsampled_witness:
  "list_all covered [\<lparr>x = replicate 21 (Fin 0), y = Some (replicate 21 (Fin 1)), label = ''s''\<rparr>] \<and>
   (\<exists>out drawn poly ms. SimplePlot [\<lparr>x = replicate 21 (Fin 0), y = Some (replicate 21 (Fin 1)), label = ''s''\<rparr>] = Inr out \<and>
      out = gridlines [\<lparr>x = replicate 21 (Fin 0), y = Some (replicate 21 (Fin 1)), label = ''s''\<rparr>] @ axes @ axis_labels @ concat drawn
              @ legend [\<lparr>x = replicate 21 (Fin 0), y = Some (replicate 21 (Fin 1)), label = ''s''\<rparr>] \<and>
      drawn ! 0 = [G (poly # ms)] \<and>
      length ms = 21 \<and>
      has_value_label (ms ! 0) \<and> \<not> has_value_label (ms ! 1) \<and> has_value_label (ms ! 2) \<and>
      (\<exists>cx cy ty. ms ! 2 = G [Circle cx cy ''#1976d2'', Text cx ty ''#1976d2'' (ToFixed2 (Fin 1))]) \<and>
      length (filter has_value_label ms) \<le> 20)"
proof -
  let ?D = "[\<lparr>x = replicate 21 (Fin 0), y = Some (replicate 21 (Fin 1)), label = ''s''\<rparr>]"
  have h: "list_all covered ?D"
    by (simp add: covered_def)
  note labels = value_labels_downsampled [of ?D]
  from labels h obtain out where out: "SimplePlot ?D = Inr out"
    by blast
  with labels obtain drawn
    where drawing: "out = gridlines ?D @ axes @ axis_labels @ concat drawn @ legend ?D"
      and each: "\<forall>i < length ?D. \<forall>ys. y (?D ! i) = Some ys \<longrightarrow>
            (\<exists>poly ms. drawn ! i = [G (poly # ms)] \<and>
               length ms = length (x (?D ! i)) \<and>
               (\<forall>j < length (x (?D ! i)).
                  has_value_label (ms ! j)
                    = (length (x (?D ! i)) \<le> 20
                       \<or> j mod nat \<lceil>real (length (x (?D ! i))) / 20\<rceil> = 0)) \<and>
               (\<forall>j < length (x (?D ! i)). has_value_label (ms ! j) \<longrightarrow>
                  j < length ys \<and>
                  (\<exists>cx cy ty. ms ! j = G [Circle cx cy (palette ! (i mod 4)),
                     Text cx ty (palette ! (i mod 4)) (ToFixed2 (ys ! j))])) \<and>
               length (filter has_value_label ms) \<le> 20)"
    by blast
  from each [rule_format, of 0 "replicate 21 (Fin 1)"] obtain poly ms
    where group: "drawn ! 0 = [G (poly # ms)]"
      and size: "length ms = 21"
      and shown: "\<forall>j < 21. has_value_label (ms ! j) = (j mod 2 = 0)"
      and shape: "\<forall>j < 21. has_value_label (ms ! j) \<longrightarrow>
            (\<exists>cx cy ty. ms ! j = G [Circle cx cy (palette ! 0),
               Text cx ty (palette ! 0) (ToFixed2 (replicate 21 (Fin 1) ! j))])"
      and few: "length (filter has_value_label ms) \<le> 20"
    by auto
  from shown have l: "has_value_label (ms ! 0)" "\<not> has_value_label (ms ! 1)"
    "has_value_label (ms ! 2)"
    by simp_all
  with shape have "\<exists>cx cy ty. ms ! 2 = G [Circle cx cy (palette ! 0),
               Text cx ty (palette ! 0) (ToFixed2 (replicate 21 (Fin 1) ! 2))]"
    by simp
  then have "\<exists>cx cy ty. ms ! 2 = G [Circle cx cy ''#1976d2'', Text cx ty ''#1976d2'' (ToFixed2 (Fin 1))]"
    by (simp add: palette_def)
  with h out drawing group size l few show ?thesis by blast
qed

text \<open>With the 101 samples of the spec's scenario the step is 6 and 17 points are labelled.\<close>

lemma labels_of_101: "filter (label_shown 101) [0..<101] = [0, 6, 12, 18, 24, 30, 36, 42, 48, 54, 60, 66, 72, 78, 84, 90, 96]"
proof -
  have "label_shown 101 = (\<lambda>j. j mod 6 = 0)"
    by (simp add: label_shown_def fun_eq_iff)
  moreover have "filter (\<lambda>j::nat. j mod 6 = 0) [0..<101]
      = [0, 6, 12, 18, 24, 30, 36, 42, 48, 54, 60, 66, 72, 78, 84, 90, 96]"
    by code_simp
  ultimately show ?thesis by simp
qed

section \<open>Colours and gridlines\<close>

lemma marker_elements:
  assumes "marker data i ys N (j, xv) = Inr m" and "e \<in> set (flatten m)"
  shows "(is_circle e \<or> is_value_label e) \<and> colour_of e = palette ! (i mod 4)"
  using marker_cases [OF assms(1)] assms(2) by auto

lemma series_elements:
  assumes "series data (i, d) = Inr out" and "e \<in> set (concat (map flatten out))"
  shows "(is_polyline e \<or> is_circle e \<or> is_value_label e) \<and> colour_of e = palette ! (i mod 4)"
proof (cases "y d")
  case None
  with assms show ?thesis by (simp add: series_None)
next
  case (Some ys)
  with assms(1) obtain ms
    where ms: "sequence (map (marker data i ys (length (x d))) (enumerate 0 (x d))) = Inr ms"
      and out: "out = [G (Polyline (palette ! (i mod 4)) (map (point data ys) (enumerate 0 (x d)))
                         # ms)]"
    by (auto simp: series_Some)
  from assms(2) out consider
      "e = Polyline (palette ! (i mod 4)) (map (point data ys) (enumerate 0 (x d)))"
    | m where "m \<in> set ms" "e \<in> set (flatten m)"
    by auto
  then show ?thesis
  proof cases
    case 1
    then show ?thesis by simp
  next
    case 2
    from markers_origin [OF ms 2(1)] obtain j xv
      where "marker data i ys (length (x d)) (j, xv) = Inr m" by blast
    from marker_elements [OF this 2(2)] show ?thesis by blast
  qed
qed

text \<open>
  Claim C7: the palette has four colours; the legend has one entry per series, in the
  order of the input, and the entry of the series \<open>i\<close> is a swatch of the colour
  \<open>palette ! (i mod 4)\<close> beside the label of the series; every polyline, circle and
  value label drawn for the series \<open>i\<close> has this same colour; a series with \<open>y\<close> is
  drawn as one polyline and one circle per point, of this colour; and the drawing of
  the plot holds the drawing of each series and the legend.
\<close>

theorem palette_colours:
  assumes "i < length data"
  shows "length palette = 4 \<and>
         length (legend data) = length data \<and>
         (\<exists>rx ry tx ty. legend data ! i =
            G [Rect rx ry (palette ! (i mod 4)), Text tx ty ''#333'' (Str (label (data ! i)))]) \<and>
         (\<forall>out e. series data (i, data ! i) = Inr out \<and> e \<in> set (concat (map flatten out)) \<longrightarrow>
            (is_polyline e \<or> is_circle e \<or> is_value_label e) \<and>
            colour_of e = palette ! (i mod 4)) \<and>
         (\<forall>ys. y (data ! i) = Some ys \<and> length (x (data ! i)) \<le> length ys \<longrightarrow>
            (\<exists>pts ms. series data (i, data ! i) = Inr [G (Polyline (palette ! (i mod 4)) pts # ms)] \<and>
               length ms = length (x (data ! i)) \<and>
               (\<forall>j < length ms. \<exists>cx cy rest. ms ! j = G (Circle cx cy (palette ! (i mod 4)) # rest)))) \<and>
         (\<forall>out. SimplePlot data = Inr out \<longrightarrow>
            (\<exists>drawn. out = gridlines data @ axes @ axis_labels @ concat drawn @ legend data \<and>
               length drawn = length data \<and> series data (i, data ! i) = Inr (drawn ! i)))"
proof -
  have entry: "\<exists>rx ry tx ty. legend data ! i =
      G [Rect rx ry (palette ! (i mod 4)), Text tx ty ''#333'' (Str (label (data ! i)))]"
    using assms by (simp add: legend_def legend_entry_def nth_enumerate_eq)
  have colours: "(is_polyline e \<or> is_circle e \<or> is_value_label e) \<and>
      colour_of e = palette ! (i mod 4)"
    if "series data (i, data ! i) = Inr out \<and> e \<in> set (concat (map flatten out))" for out e
    using that series_elements by blast
  have drawn: "\<exists>pts ms. series data (i, data ! i) = Inr [G (Polyline (palette ! (i mod 4)) pts # ms)] \<and>
      length ms = length (x (data ! i)) \<and>
      (\<forall>j < length ms. \<exists>cx cy rest. ms ! j = G (Circle cx cy (palette ! (i mod 4)) # rest))"
    if "y (data ! i) = Some ys \<and> length (x (data ! i)) \<le> length ys" for ys
  proof -
    let ?d = "data ! i"
    from that obtain ms
      where ms: "sequence (map (marker data i ys (length (x ?d))) (enumerate 0 (x ?d))) = Inr ms"
      using markers_defined by blast
    with that have out: "series data (i, ?d) =
        Inr [G (Polyline (palette ! (i mod 4)) (map (point data ys) (enumerate 0 (x ?d))) # ms)]"
      by (simp add: series_Some)
    have len: "length ms = length (x ?d)"
      using ms by (rule markers_nth(1))
    have "\<exists>cx cy rest. ms ! j = G (Circle cx cy (palette ! (i mod 4)) # rest)"
      if "j < length ms" for j
    proof -
      from that len ms have "marker data i ys (length (x ?d)) (j, x ?d ! j) = Inr (ms ! j)"
        by (simp add: markers_nth(2))
      from marker_cases [OF this] show ?thesis by blast
    qed
    with out len show ?thesis by blast
  qed
  have plot: "\<exists>drawn. out = gridlines data @ axes @ axis_labels @ concat drawn @ legend data \<and>
      length drawn = length data \<and> series data (i, data ! i) = Inr (drawn ! i)"
    if "SimplePlot data = Inr out" for out
    using SimplePlot_structure [OF that] assms by blast
  have "length (legend data) = length data"
    by (simp add: legend_def)
  with entry colours drawn plot show ?thesis
    by (simp only: length_palette) blast
qed

text \<open>
  Witness of C7: the second of two series (\<open>i = 1\<close>) is drawn in the second colour of
  the palette, polyline, circles and legend swatch alike.
\<close>

theorem palette_colours_witness:
  "1 < length [\<lparr>x = [Fin 0, Fin 10], y = None, label = ''linspace''\<rparr>,
      \<lparr>x = [Fin 2, Fin 3], y = Some [Fin 1, Fin 2], label = ''exp_cos''\<rparr>] \<and>
   (\<exists>rx ry tx ty. legend [\<lparr>x = [Fin 0, Fin 10], y = None, label = ''linspace''\<rparr>,
      \<lparr>x = [Fin 2, Fin 3], y = Some [Fin 1, Fin 2], label = ''exp_cos''\<rparr>] ! 1 = G [Rect rx ry ''#d32f2f'', Text tx ty ''#333'' (Str ''exp_cos'')]) \<and>
   (\<exists>pts ms. series [\<lparr>x = [Fin 0, Fin 10], y = None, label = ''linspace''\<rparr>,
      \<lparr>x = [Fin 2, Fin 3], y = Some [Fin 1, Fin 2], label = ''exp_cos''\<rparr>] (1, [\<lparr>x = [Fin 0, Fin 10], y = None, label = ''linspace''\<rparr>,
      \<lparr>x = [Fin 2, Fin 3], y = Some [Fin 1, Fin 2], label = ''exp_cos''\<rparr>] ! 1) = Inr [G (Polyline ''#d32f2f'' pts # ms)] \<and>
      length ms = 2 \<and>
      (\<exists>cx cy rest. ms ! 0 = G (Circle cx cy ''#d32f2f'' # rest)) \<and>
      (\<exists>cx cy rest. ms ! 1 = G (Circle cx cy ''#d32f2f'' # rest)) \<and>
      (\<forall>e \<in> set (concat (map flatten [G (Polyline ''#d32f2f'' pts # ms)])).
         colour_of e = ''#d32f2f'')) \<and>
   (\<exists>out drawn. SimplePlot [\<lparr>x = [Fin 0, Fin 10], y = None, label = ''linspace''\<rparr>,
      \<lparr>x = [Fin 2, Fin 3], y = Some [Fin 1, Fin 2], label = ''exp_cos''\<rparr>] = Inr out \<and>
      out = gridlines [\<lparr>x = [Fin 0, Fin 10], y = None, label = ''linspace''\<rparr>,
      \<lparr>x = [Fin 2, Fin 3], y = Some [Fin 1, Fin 2], label = ''exp_cos''\<rparr>] @ axes @ axis_labels @ concat drawn @ legend [\<lparr>x = [Fin 0, Fin 10], y = None, label = ''linspace''\<rparr>,
      \<lparr>x = [Fin 2, Fin 3], y = Some [Fin 1, Fin 2], label = ''exp_cos''\<rparr>] \<and>
      series [\<lparr>x = [Fin 0, Fin 10], y = None, label = ''linspace''\<rparr>,
      \<lparr>x = [Fin 2, Fin 3], y = Some [Fin 1, Fin 2], label = ''exp_cos''\<rparr>] (1, [\<lparr>x = [Fin 0, Fin 10], y = None, label = ''linspace''\<rparr>,
      \<lparr>x = [Fin 2, Fin 3], y = Some [Fin 1, Fin 2], label = ''exp_cos''\<rparr>] ! 1) = Inr (drawn ! 1))"
proof -
  let ?D = "[\<lparr>x = [Fin 0, Fin 10], y = None, label = ''linspace''\<rparr>,
      \<lparr>x = [Fin 2, Fin 3], y = Some [Fin 1, Fin 2], label = ''exp_cos''\<rparr>]"
  have h: "1 < length ?D" by simp
  have p: "palette ! (1 mod 4) = ''#d32f2f''"
    by (simp add: palette_def)
  have d: "y (?D ! 1) = Some [Fin 1, Fin 2] \<and> length (x (?D ! 1)) \<le> length [Fin 1, Fin 2::number]"
    "label (?D ! 1) = ''exp_cos''" "length (x (?D ! 1)) = 2"
    by simp_all
  note all = palette_colours [OF h]
  from all have "\<exists>rx ry tx ty. legend ?D ! 1 =
      G [Rect rx ry (palette ! (1 mod 4)), Text tx ty ''#333'' (Str (label (?D ! 1)))]"
    by blast
  then have entry: "\<exists>rx ry tx ty. legend ?D ! 1 =
      G [Rect rx ry ''#d32f2f'', Text tx ty ''#333'' (Str ''exp_cos'')]"
    by (simp only: p d(2))
  from all d(1) have "\<exists>pts ms. series ?D (1, ?D ! 1) = Inr [G (Polyline (palette ! (1 mod 4)) pts # ms)] \<and>
      length ms = length (x (?D ! 1)) \<and>
      (\<forall>j < length ms. \<exists>cx cy rest. ms ! j = G (Circle cx cy (palette ! (1 mod 4)) # rest))"
    by blast
  then obtain pts ms where out: "series ?D (1, ?D ! 1) = Inr [G (Polyline ''#d32f2f'' pts # ms)]"
    and len: "length ms = 2"
    and circ: "\<forall>j < length ms. \<exists>cx cy rest. ms ! j = G (Circle cx cy ''#d32f2f'' # rest)"
    unfolding p d(3) by blast
  from circ len have c: "\<exists>cx cy rest. ms ! 0 = G (Circle cx cy ''#d32f2f'' # rest)"
    "\<exists>cx cy rest. ms ! 1 = G (Circle cx cy ''#d32f2f'' # rest)"
    by simp_all
  from all have "\<forall>out e. series ?D (1, ?D ! 1) = Inr out \<and> e \<in> set (concat (map flatten out)) \<longrightarrow>
      (is_polyline e \<or> is_circle e \<or> is_value_label e) \<and> colour_of e = palette ! (1 mod 4)"
    by blast
  with out have col: "\<forall>e \<in> set (concat (map flatten [G (Polyline ''#d32f2f'' pts # ms)])).
      colour_of e = ''#d32f2f''"
    unfolding p by blast
  have "list_all covered ?D" by (simp add: covered_def)
  then obtain drawing where drawing: "SimplePlot ?D = Inr drawing"
    using SimplePlot_defined by blast
  with all have "\<exists>drawn. drawing = gridlines ?D @ axes @ axis_labels @ concat drawn @ legend ?D \<and>
      length drawn = length ?D \<and> series ?D (1, ?D ! 1) = Inr (drawn ! 1)"
    by blast
  with drawing have plot: "\<exists>out drawn. SimplePlot ?D = Inr out \<and>
      out = gridlines ?D @ axes @ axis_labels @ concat drawn @ legend ?D \<and>
      series ?D (1, ?D ! 1) = Inr (drawn ! 1)"
    by blast
  from h entry out len c col plot show ?thesis by blast
qed

lemma not_gridline:
  "is_polyline e \<or> is_circle e \<or> is_value_label e \<Longrightarrow> \<not> is_gridline e"
  by (cases e) auto

lemma drawn_no_gridline:
  assumes "length drawn = length data"
    and "\<forall>i < length data. series data (i, data ! i) = Inr (drawn ! i)"
  shows "filter is_gridline (concat (map flatten (concat drawn))) = []"
proof -
  have "\<not> is_gridline e" if "e \<in> set (concat (map flatten (concat drawn)))" for e
  proof -
    from that obtain out where "out \<in> set drawn" and e: "e \<in> set (concat (map flatten out))"
      by auto
    then obtain i where "i < length drawn" "out = drawn ! i"
      by (auto simp: in_set_conv_nth)
    with assms have "series data (i, data ! i) = Inr out" by simp
    from series_elements [OF this e] show ?thesis
      by (simp add: not_gridline)
  qed
  then show ?thesis by (simp add: filter_empty_conv)
qed

lemma legend_no_gridline: "filter is_gridline (concat (map flatten (legend data))) = []"
proof -
  have "\<not> is_gridline e" if "e \<in> set (concat (map flatten (legend data)))" for e
    using that by (auto simp: legend_def legend_entry_def)
  then show ?thesis by (simp add: filter_empty_conv)
qed

lemma fixed_no_gridline:
  "filter is_gridline (concat (map flatten axes)) = []"
  "filter is_gridline (concat (map flatten axis_labels)) = []"
  by (simp_all add: axes_def axis_labels_def)

text \<open>
  Claim C9: a render of series whose \<open>y\<close> covers their \<open>x\<close> succeeds, and the lines
  of the gridline stroke in a drawing are exactly, for each fraction \<open>f\<close> of 0.25, 0.5,
  0.75 and 1 in this order, the horizontal line at \<open>scaleY (minY + (maxY - minY) * f)\<close>
  and the vertical line at \<open>scaleX (minX + (maxX - minX) * f)\<close>, and no other.
\<close>

theorem gridlines_at_quarters:
  "(list_all covered data \<longrightarrow> (\<exists>out. SimplePlot data = Inr out)) \<and>
   (\<forall>out. SimplePlot data = Inr out \<longrightarrow>
      filter is_gridline (concat (map flatten out)) =
        concat (map (\<lambda>f.
          [Line padding (scaleY data (minY data + (maxY data - minY data) * Fin f))
                (width - padding) (scaleY data (minY data + (maxY data - minY data) * Fin f))
                ''#e0e0e0'',
           Line (scaleX data (minX data + (maxX data - minX data) * Fin f)) padding
                (scaleX data (minX data + (maxX data - minX data) * Fin f)) (height - padding)
                ''#e0e0e0''])
          [0.25, 0.5, 0.75, 1]))"
proof (intro conjI allI impI)
  assume "list_all covered data"
  then show "\<exists>out. SimplePlot data = Inr out" by (rule SimplePlot_defined)
next
  fix out assume "SimplePlot data = Inr out"
  from SimplePlot_structure [OF this] obtain drawn
    where out: "out = gridlines data @ axes @ axis_labels @ concat drawn @ legend data"
      and len: "length drawn = length data"
      and ser: "\<forall>i < length data. series data (i, data ! i) = Inr (drawn ! i)"
    by blast
  have "filter is_gridline (concat (map flatten out))
          = filter is_gridline (concat (map flatten (gridlines data)))"
    by (simp add: out fixed_no_gridline legend_no_gridline drawn_no_gridline [OF len ser])
  also have "\<dots> = concat (map (\<lambda>f.
          [Line padding (scaleY data (minY data + (maxY data - minY data) * Fin f))
                (width - padding) (scaleY data (minY data + (maxY data - minY data) * Fin f))
                ''#e0e0e0'',
           Line (scaleX data (minX data + (maxX data - minX data) * Fin f)) padding
                (scaleX data (minX data + (maxX data - minX data) * Fin f)) (height - padding)
                ''#e0e0e0''])
          [0.25, 0.5, 0.75, 1])"
    by (simp add: gridlines_def)
  finally show "filter is_gridline (concat (map flatten out)) = concat (map (\<lambda>f.
          [Line padding (scaleY data (minY data + (maxY data - minY data) * Fin f))
                (width - padding) (scaleY data (minY data + (maxY data - minY data) * Fin f))
                ''#e0e0e0'',
           Line (scaleX data (minX data + (maxX data - minX data) * Fin f)) padding
                (scaleX data (minX data + (maxX data - minX data) * Fin f)) (height - padding)
                ''#e0e0e0''])
          [0.25, 0.5, 0.75, 1])" .
qed

text \<open>
  Witness of C9: X from 0 to 1 and Y from 3 to 7. The horizontal lines lie at the pixels
  220, 160, 100 and 40, the vertical lines at 190, 340, 490 and 640.
\<close>

theorem gridlines_at_quarters_witness:
  "list_all covered [\<lparr>x = [Fin 0, Fin 1], y = Some [Fin 3, Fin 7], label = ''s''\<rparr>] \<and>
   (\<exists>out. SimplePlot [\<lparr>x = [Fin 0, Fin 1], y = Some [Fin 3, Fin 7], label = ''s''\<rparr>] = Inr out \<and>
      filter is_gridline (concat (map flatten out)) =
        [Line (Fin 40) (Fin 220) (Fin 760) (Fin 220) ''#e0e0e0'',
         Line (Fin 190) (Fin 40) (Fin 190) (Fin 280) ''#e0e0e0'',
         Line (Fin 40) (Fin 160) (Fin 760) (Fin 160) ''#e0e0e0'',
         Line (Fin 340) (Fin 40) (Fin 340) (Fin 280) ''#e0e0e0'',
         Line (Fin 40) (Fin 100) (Fin 760) (Fin 100) ''#e0e0e0'',
         Line (Fin 490) (Fin 40) (Fin 490) (Fin 280) ''#e0e0e0'',
         Line (Fin 40) (Fin 40) (Fin 760) (Fin 40) ''#e0e0e0'',
         Line (Fin 640) (Fin 40) (Fin 640) (Fin 280) ''#e0e0e0''])"
proof -
  let ?D = "[\<lparr>x = [Fin 0, Fin 1], y = Some [Fin 3, Fin 7], label = ''s''\<rparr>]"
  have h: "list_all covered ?D"
    by (simp add: covered_def)
  have e: "minX ?D = Fin 0" "maxX ?D = Fin 1" "minY ?D = Fin 3" "maxY ?D = Fin 7"
    by (simp_all add: extent_defs)
  note grid = gridlines_at_quarters [of ?D]
  from grid h obtain out where out: "SimplePlot ?D = Inr out"
    by blast
  with grid have "filter is_gridline (concat (map flatten out)) =
        concat (map (\<lambda>f.
          [Line padding (scaleY ?D (minY ?D + (maxY ?D - minY ?D) * Fin f))
                (width - padding) (scaleY ?D (minY ?D + (maxY ?D - minY ?D) * Fin f))
                ''#e0e0e0'',
           Line (scaleX ?D (minX ?D + (maxX ?D - minX ?D) * Fin f)) padding
                (scaleX ?D (minX ?D + (maxX ?D - minX ?D) * Fin f)) (height - padding)
                ''#e0e0e0''])
          [0.25, 0.5, 0.75, 1])"
    by blast
  also have "\<dots> =
        [Line (Fin 40) (Fin 220) (Fin 760) (Fin 220) ''#e0e0e0'',
         Line (Fin 190) (Fin 40) (Fin 190) (Fin 280) ''#e0e0e0'',
         Line (Fin 40) (Fin 160) (Fin 760) (Fin 160) ''#e0e0e0'',
         Line (Fin 340) (Fin 40) (Fin 340) (Fin 280) ''#e0e0e0'',
         Line (Fin 40) (Fin 100) (Fin 760) (Fin 100) ''#e0e0e0'',
         Line (Fin 490) (Fin 40) (Fin 490) (Fin 280) ''#e0e0e0'',
         Line (Fin 40) (Fin 40) (Fin 760) (Fin 40) ''#e0e0e0'',
         Line (Fin 640) (Fin 40) (Fin 640) (Fin 280) ''#e0e0e0'']"
    by (simp add: e scaleX_def scaleY_def geometry_defs rnd_int rnd_dyadic [where j = 2])
  finally show ?thesis using h out by blast
qed

section \<open>The join of the four requests\<close>

declare Promise_all.simps [simp del]

lemma endpoint_cases: "e = linspace \<or> e = exp_cos \<or> e = logistic \<or> e = multi_bump"
  by (cases e) simp_all

lemma Promise_all_incomplete:
  assumes "got e = None"
  shows "Promise_all got evs =
     (case evs of
        [] \<Rightarrow> Pending
      | (e', Inl reason) # rest \<Rightarrow> Rejected reason
      | (e', Inr v) # rest \<Rightarrow> Promise_all (got(e' \<mapsto> v)) rest)"
  using assms endpoint_cases [of e]
  by (subst Promise_all.simps) (auto split: option.splits)

lemma Promise_all_complete:
  assumes "got linspace = Some lin" "got exp_cos = Some expc" "got logistic = Some logi"
    "got multi_bump = Some multi"
  shows "Promise_all got evs = Fulfilled (lin, expc, logi, multi)"
  using assms by (subst Promise_all.simps) simp

text \<open>A request that has not succeeded keeps the joint promise from being fulfilled.\<close>

lemma Promise_all_needs_all:
  assumes "got e = None" and "\<forall>v. (e, Inr v) \<notin> set evs"
  shows "Promise_all got evs \<noteq> Fulfilled vs"
  using assms
proof (induction evs arbitrary: got)
  case Nil
  then show ?case by (simp add: Promise_all_incomplete)
next
  case (Cons ev evs)
  obtain e' s where ev: "ev = (e', s)" by (cases ev)
  show ?case
  proof (cases s)
    case (Inl reason)
    with Cons.prems ev show ?thesis by (simp add: Promise_all_incomplete)
  next
    case (Inr v)
    with Cons.prems ev have "e' \<noteq> e" by auto
    with Cons.prems have "(got(e' \<mapsto> v)) e = None" "\<forall>v. (e, Inr v) \<notin> set evs"
      by simp_all
    then have "Promise_all (got(e' \<mapsto> v)) evs \<noteq> Fulfilled vs"
      by (rule Cons.IH)
    with Cons.prems(1) ev Inr show ?thesis
      by (simp add: Promise_all_incomplete)
  qed
qed

text \<open>The first failure rejects the joint promise, each request settling once.\<close>

lemma first_failure_endpoint:
  "first_failure evs = Some m \<Longrightarrow> \<exists>e. (e, Inl m) \<in> set evs"
  by (induction evs rule: first_failure.induct) auto

lemma Promise_all_rejects:
  assumes "distinct (map fst evs)" and "dom got \<inter> fst ` set evs = {}"
    and "first_failure evs = Some m"
  shows "Promise_all got evs = Rejected m"
  using assms
proof (induction evs arbitrary: got)
  case Nil
  then show ?case by simp
next
  case (Cons ev evs)
  obtain e' s where ev: "ev = (e', s)" by (cases ev)
  from Cons.prems(3) obtain ef where ef: "(ef, Inl m) \<in> set (ev # evs)"
    using first_failure_endpoint by blast
  then have "ef \<in> fst ` set (ev # evs)" by force
  with Cons.prems(2) have none: "got ef = None" by auto
  show ?case
  proof (cases s)
    case (Inl reason)
    with Cons.prems(3) ev have "reason = m" by simp
    with none ev Inl show ?thesis by (simp add: Promise_all_incomplete)
  next
    case (Inr v)
    from Cons.prems(1) ev have d: "distinct (map fst evs)" and fresh: "e' \<notin> fst ` set evs"
      by auto
    from Cons.prems(2) fresh have "dom (got(e' \<mapsto> v)) \<inter> fst ` set evs = {}"
      by auto
    moreover from Cons.prems(3) ev Inr have "first_failure evs = Some m" by simp
    ultimately have "Promise_all (got(e' \<mapsto> v)) evs = Rejected m"
      using d Cons.IH by blast
    with none ev Inr show ?thesis by (simp add: Promise_all_incomplete)
  qed
qed

text \<open>Four successes fulfil it with the four values, in the order of the requests.\<close>

lemma Promise_all_fulfils:
  assumes "first_failure evs = None"
    and "\<forall>e. got e \<noteq> None \<or> e \<in> fst ` set evs"
    and "\<forall>e v. (e, Inr v) \<in> set evs \<longrightarrow> target e = v"
    and "\<forall>e v. got e = Some v \<longrightarrow> target e = v"
  shows "Promise_all got evs
           = Fulfilled (target linspace, target exp_cos, target logistic, target multi_bump)"
  using assms
proof (induction evs arbitrary: got)
  case Nil
  then have "\<forall>e. got e = Some (target e)" by auto
  then show ?case by (simp add: Promise_all_complete)
next
  case (Cons ev evs)
  show ?case
  proof (cases "\<forall>e. got e \<noteq> None")
    case True
    with Cons.prems(4) have "\<forall>e. got e = Some (target e)" by (metis not_None_eq)
    then show ?thesis by (simp add: Promise_all_complete)
  next
    case False
    then obtain e0 where none: "got e0 = None" by blast
    obtain e' s where ev: "ev = (e', s)" by (cases ev)
    from Cons.prems(1) ev obtain v where s: "s = Inr v" and ff: "first_failure evs = None"
      by (cases s) simp_all
    from Cons.prems(3) ev s have tv: "target e' = v" by simp
    have "Promise_all (got(e' \<mapsto> v)) evs
            = Fulfilled (target linspace, target exp_cos, target logistic, target multi_bump)"
    proof (rule Cons.IH [OF ff])
      show "\<forall>e. (got(e' \<mapsto> v)) e \<noteq> None \<or> e \<in> fst ` set evs"
        using Cons.prems(2) ev by auto
      show "\<forall>e v. (e, Inr v) \<in> set evs \<longrightarrow> target e = v"
        using Cons.prems(3) by simp
      show "\<forall>e w. (got(e' \<mapsto> v)) e = Some w \<longrightarrow> target e = w"
        using Cons.prems(4) tv by auto
    qed
    with none ev s show ?thesis by (simp add: Promise_all_incomplete)
  qed
qed

lemma first_failure_None: "first_failure evs = None \<longleftrightarrow> (\<forall>e m. (e, Inl m) \<notin> set evs)"
  by (induction evs rule: first_failure.induct) auto

lemma settlements_mem:
  "(e, s) \<in> set (settlements arrivals) \<longleftrightarrow> (\<exists>r. (e, r) \<in> set arrivals \<and> s = fetchArrayAPI r)"
  by (auto simp: settlements_def)

lemma settlements_fst: "map fst (settlements arrivals) = map fst arrivals"
  by (simp add: settlements_def case_prod_unfold)

lemma tab_settled: "tab (fetchAndSetPlotData st arrivals) = tab st"
  by (simp add: fetchAndSetPlotData_def fetchAndSetPlotData_settled_def
      fetchAndSetPlotData_start_def split: promise.splits)

text \<open>
  Claim C2: with each of the four requests settling once, (1) as long as some request
  has not succeeded, the plot data and the rendered plot are those of before: the data,
  and with them the scale, change only once all four responses are there; (2) when a
  request fails, the plot data and the rendered plot are left as they were, the message
  of the first failure is set as the error (\<^verbatim>\<open>"API error"\<close> for an empty message) and
  the loading flag is cleared; (3) when all four succeed, the plot data become the four
  series, in the order of the requests.
\<close>

theorem four_series_join:
  assumes "distinct (map fst arrivals)"
  shows "((\<exists>e. \<forall>r. (e, r) \<in> set arrivals \<longrightarrow> (\<exists>m. fetchArrayAPI r = Inl m)) \<longrightarrow>
            plotData (fetchAndSetPlotData st arrivals) = plotData st \<and>
            rendered_plot (fetchAndSetPlotData st arrivals) = rendered_plot st) \<and>
         (\<forall>m. first_failure (settlements arrivals) = Some m \<longrightarrow>
            plotData (fetchAndSetPlotData st arrivals) = plotData st \<and>
            rendered_plot (fetchAndSetPlotData st arrivals) = rendered_plot st \<and>
            plotError (fetchAndSetPlotData st arrivals)
              = Some (if m = [] then ''API error'' else m) \<and>
            plotLoading (fetchAndSetPlotData st arrivals) = False) \<and>
         (\<forall>target. (\<forall>e. \<exists>r. (e, r) \<in> set arrivals \<and> fetchArrayAPI r = Inr (target e)) \<longrightarrow>
            fetchAndSetPlotData st arrivals =
              st\<lparr>plotData := Some [
                    \<lparr>x = resp_x (target linspace), y = None, label = ''linspace''\<rparr>,
                    \<lparr>x = resp_x (target exp_cos), y = resp_y (target exp_cos),
                     label = ''exp_cos''\<rparr>,
                    \<lparr>x = resp_x (target logistic), y = resp_y (target logistic),
                     label = ''logistic''\<rparr>,
                    \<lparr>x = resp_x (target multi_bump), y = resp_y (target multi_bump),
                     label = ''multi_bump''\<rparr>],
                 plotLoading := False, plotError := None\<rparr>)"
proof (intro conjI allI impI)
  let ?p = "Promise_all Map.empty (settlements arrivals)"
  let ?st' = "fetchAndSetPlotData st arrivals"
  have unchanged: "plotData ?st' = plotData st" if "\<forall>vs. ?p \<noteq> Fulfilled vs"
    using that
    by (cases ?p) (simp_all add: fetchAndSetPlotData_def fetchAndSetPlotData_settled_def
        fetchAndSetPlotData_start_def)
  have same_plot: "rendered_plot ?st' = rendered_plot st" if "plotData ?st' = plotData st"
    using that by (simp add: rendered_plot_def tab_settled)
  {
    assume "\<exists>e. \<forall>r. (e, r) \<in> set arrivals \<longrightarrow> (\<exists>m. fetchArrayAPI r = Inl m)"
    then obtain e where "\<forall>r. (e, r) \<in> set arrivals \<longrightarrow> (\<exists>m. fetchArrayAPI r = Inl m)" ..
    then have "\<forall>v. (e, Inr v) \<notin> set (settlements arrivals)"
      by (auto simp: settlements_mem)
    then have "\<forall>vs. ?p \<noteq> Fulfilled vs"
      by (simp add: Promise_all_needs_all)
    then show "plotData ?st' = plotData st" by (rule unchanged)
    then show "rendered_plot ?st' = rendered_plot st" by (rule same_plot)
  }
  {
    fix m assume "first_failure (settlements arrivals) = Some m"
    with assms have rej: "?p = Rejected m"
      by (simp add: Promise_all_rejects settlements_fst)
    then show "plotData ?st' = plotData st" by (simp add: unchanged)
    then show "rendered_plot ?st' = rendered_plot st" by (rule same_plot)
    from rej show "plotError ?st' = Some (if m = [] then ''API error'' else m)"
      by (simp add: fetchAndSetPlotData_def fetchAndSetPlotData_settled_def)
    from rej show "plotLoading ?st' = False"
      by (simp add: fetchAndSetPlotData_def fetchAndSetPlotData_settled_def)
  }
  {
    fix target
    assume all: "\<forall>e. \<exists>r. (e, r) \<in> set arrivals \<and> fetchArrayAPI r = Inr (target e)"
    have val: "s = Inr (target e)" if "(e, s) \<in> set (settlements arrivals)" for e s
    proof -
      from that obtain r where r: "(e, r) \<in> set arrivals" "s = fetchArrayAPI r"
        by (auto simp: settlements_mem)
      from all obtain r' where r': "(e, r') \<in> set arrivals" "fetchArrayAPI r' = Inr (target e)"
        by blast
      from assms r(1) r'(1) have "r = r'" by (rule eq_key_imp_eq_value)
      with r(2) r'(2) show ?thesis by simp
    qed
    then have "first_failure (settlements arrivals) = None"
      by (fastforce simp: first_failure_None)
    moreover have "\<forall>e. Map.empty e \<noteq> None \<or> e \<in> fst ` set (settlements arrivals)"
    proof
      fix e
      from all obtain r where "(e, r) \<in> set arrivals" by blast
      then have "(e, fetchArrayAPI r) \<in> set (settlements arrivals)"
        by (auto simp: settlements_mem)
      then show "Map.empty e \<noteq> None \<or> e \<in> fst ` set (settlements arrivals)" by force
    qed
    moreover have "\<forall>e v. (e, Inr v) \<in> set (settlements arrivals) \<longrightarrow> target e = v"
      using val by fastforce
    ultimately have "?p = Fulfilled (target linspace, target exp_cos, target logistic,
        target multi_bump)"
      by (intro Promise_all_fulfils) simp_all
    then show "?st' =
              st\<lparr>plotData := Some [
                    \<lparr>x = resp_x (target linspace), y = None, label = ''linspace''\<rparr>,
                    \<lparr>x = resp_x (target exp_cos), y = resp_y (target exp_cos),
                     label = ''exp_cos''\<rparr>,
                    \<lparr>x = resp_x (target logistic), y = resp_y (target logistic),
                     label = ''logistic''\<rparr>,
                    \<lparr>x = resp_x (target multi_bump), y = resp_y (target multi_bump),
                     label = ''multi_bump''\<rparr>],
                 plotLoading := False, plotError := None\<rparr>"
      by (simp add: fetchAndSetPlotData_def fetchAndSetPlotData_settled_def
          fetchAndSetPlotData_start_def)
  }
qed

declare string_of_nat.simps [simp del]

lemma string_of_500: "string_of_nat 500 = ''500''"
  by (simp add: string_of_nat.simps [of 500] string_of_nat.simps [of 50] string_of_nat.simps [of 5])

text \<open>
  Witness of C2: a run where two responses have arrived, which leaves the old plot; a
  run where the second response to arrive has the status 500, which leaves the old plot
  and shows \<^verbatim>\<open>API error: 500\<close>; and a run where the four responses arrive out of order,
  which sets the four series in the order of the requests.
\<close>

theorem four_series_join_witness:
  "distinct (map fst [(exp_cos, Response 200 (Inr \<lparr>resp_x = [Fin 0, Fin 2], resp_y = Some [Fin 1, Fin 0]\<rparr>)),
       (linspace, Response 200 (Inr \<lparr>resp_x = [Fin 0, Fin 2], resp_y = None\<rparr>))]) \<and>
   plotData (fetchAndSetPlotData \<lparr>tab = 1, plotData = Some [\<lparr>x = [Fin 0, Fin 1], y = None, label = ''old''\<rparr>],
       plotLoading = False, plotError = None, xMin = Fin 0, xMax = Fin 2\<rparr> [(exp_cos, Response 200 (Inr \<lparr>resp_x = [Fin 0, Fin 2], resp_y = Some [Fin 1, Fin 0]\<rparr>)),
       (linspace, Response 200 (Inr \<lparr>resp_x = [Fin 0, Fin 2], resp_y = None\<rparr>))]) = plotData \<lparr>tab = 1, plotData = Some [\<lparr>x = [Fin 0, Fin 1], y = None, label = ''old''\<rparr>],
       plotLoading = False, plotError = None, xMin = Fin 0, xMax = Fin 2\<rparr> \<and>
   distinct (map fst [(exp_cos, Response 200 (Inr \<lparr>resp_x = [Fin 0, Fin 2], resp_y = Some [Fin 1, Fin 0]\<rparr>)),
       (linspace, Response 500 (Inl ''Unexpected token'')),
       (logistic, NetworkError ''Failed to fetch'')]) \<and>
   first_failure (settlements [(exp_cos, Response 200 (Inr \<lparr>resp_x = [Fin 0, Fin 2], resp_y = Some [Fin 1, Fin 0]\<rparr>)),
       (linspace, Response 500 (Inl ''Unexpected token'')),
       (logistic, NetworkError ''Failed to fetch'')]) = Some ''API error: 500'' \<and>
   plotData (fetchAndSetPlotData \<lparr>tab = 1, plotData = Some [\<lparr>x = [Fin 0, Fin 1], y = None, label = ''old''\<rparr>],
       plotLoading = False, plotError = None, xMin = Fin 0, xMax = Fin 2\<rparr> [(exp_cos, Response 200 (Inr \<lparr>resp_x = [Fin 0, Fin 2], resp_y = Some [Fin 1, Fin 0]\<rparr>)),
       (linspace, Response 500 (Inl ''Unexpected token'')),
       (logistic, NetworkError ''Failed to fetch'')]) = plotData \<lparr>tab = 1, plotData = Some [\<lparr>x = [Fin 0, Fin 1], y = None, label = ''old''\<rparr>],
       plotLoading = False, plotError = None, xMin = Fin 0, xMax = Fin 2\<rparr> \<and>
   plotError (fetchAndSetPlotData \<lparr>tab = 1, plotData = Some [\<lparr>x = [Fin 0, Fin 1], y = None, label = ''old''\<rparr>],
       plotLoading = False, plotError = None, xMin = Fin 0, xMax = Fin 2\<rparr> [(exp_cos, Response 200 (Inr \<lparr>resp_x = [Fin 0, Fin 2], resp_y = Some [Fin 1, Fin 0]\<rparr>)),
       (linspace, Response 500 (Inl ''Unexpected token'')),
       (logistic, NetworkError ''Failed to fetch'')]) = Some ''API error: 500'' \<and>
   plotLoading (fetchAndSetPlotData \<lparr>tab = 1, plotData = Some [\<lparr>x = [Fin 0, Fin 1], y = None, label = ''old''\<rparr>],
       plotLoading = False, plotError = None, xMin = Fin 0, xMax = Fin 2\<rparr> [(exp_cos, Response 200 (Inr \<lparr>resp_x = [Fin 0, Fin 2], resp_y = Some [Fin 1, Fin 0]\<rparr>)),
       (linspace, Response 500 (Inl ''Unexpected token'')),
       (logistic, NetworkError ''Failed to fetch'')]) = False \<and>
   distinct (map fst [(logistic, Response 200 (Inr \<lparr>resp_x = [Fin 0, Fin 2], resp_y = Some [Fin 3, Fin 4]\<rparr>)),
       (linspace, Response 200 (Inr \<lparr>resp_x = [Fin 0, Fin 2], resp_y = None\<rparr>)),
       (multi_bump, Response 200 (Inr \<lparr>resp_x = [Fin 0, Fin 2], resp_y = Some [Fin 5, Fin 6]\<rparr>)),
       (exp_cos, Response 200 (Inr \<lparr>resp_x = [Fin 0, Fin 2], resp_y = Some [Fin 1, Fin 0]\<rparr>))]) \<and>
   plotData (fetchAndSetPlotData \<lparr>tab = 1, plotData = Some [\<lparr>x = [Fin 0, Fin 1], y = None, label = ''old''\<rparr>],
       plotLoading = False, plotError = None, xMin = Fin 0, xMax = Fin 2\<rparr> [(logistic, Response 200 (Inr \<lparr>resp_x = [Fin 0, Fin 2], resp_y = Some [Fin 3, Fin 4]\<rparr>)),
       (linspace, Response 200 (Inr \<lparr>resp_x = [Fin 0, Fin 2], resp_y = None\<rparr>)),
       (multi_bump, Response 200 (Inr \<lparr>resp_x = [Fin 0, Fin 2], resp_y = Some [Fin 5, Fin 6]\<rparr>)),
       (exp_cos, Response 200 (Inr \<lparr>resp_x = [Fin 0, Fin 2], resp_y = Some [Fin 1, Fin 0]\<rparr>))]) =
     Some [\<lparr>x = [Fin 0, Fin 2], y = None, label = ''linspace''\<rparr>,
           \<lparr>x = [Fin 0, Fin 2], y = Some [Fin 1, Fin 0], label = ''exp_cos''\<rparr>,
           \<lparr>x = [Fin 0, Fin 2], y = Some [Fin 3, Fin 4], label = ''logistic''\<rparr>,
           \<lparr>x = [Fin 0, Fin 2], y = Some [Fin 5, Fin 6], label = ''multi_bump''\<rparr>]"
proof -
  let ?st = "\<lparr>tab = 1, plotData = Some [\<lparr>x = [Fin 0, Fin 1], y = None, label = ''old''\<rparr>],
       plotLoading = False, plotError = None, xMin = Fin 0, xMax = Fin 2\<rparr>"
  let ?fail = "[(exp_cos, Response 200 (Inr \<lparr>resp_x = [Fin 0, Fin 2], resp_y = Some [Fin 1, Fin 0]\<rparr>)),
       (linspace, Response 500 (Inl ''Unexpected token'')),
       (logistic, NetworkError ''Failed to fetch'')]"
  let ?ok = "[(logistic, Response 200 (Inr \<lparr>resp_x = [Fin 0, Fin 2], resp_y = Some [Fin 3, Fin 4]\<rparr>)),
       (linspace, Response 200 (Inr \<lparr>resp_x = [Fin 0, Fin 2], resp_y = None\<rparr>)),
       (multi_bump, Response 200 (Inr \<lparr>resp_x = [Fin 0, Fin 2], resp_y = Some [Fin 5, Fin 6]\<rparr>)),
       (exp_cos, Response 200 (Inr \<lparr>resp_x = [Fin 0, Fin 2], resp_y = Some [Fin 1, Fin 0]\<rparr>))]"
  let ?target = "\<lambda>e. case e of
       linspace \<Rightarrow> \<lparr>resp_x = [Fin 0, Fin 2], resp_y = None\<rparr>
     | exp_cos \<Rightarrow> \<lparr>resp_x = [Fin 0, Fin 2], resp_y = Some [Fin 1, Fin 0]\<rparr>
     | logistic \<Rightarrow> \<lparr>resp_x = [Fin 0, Fin 2], resp_y = Some [Fin 3, Fin 4]\<rparr>
     | multi_bump \<Rightarrow> \<lparr>resp_x = [Fin 0, Fin 2], resp_y = Some [Fin 5, Fin 6]\<rparr>"
  let ?pend = "[(exp_cos, Response 200 (Inr \<lparr>resp_x = [Fin 0, Fin 2], resp_y = Some [Fin 1, Fin 0]\<rparr>)),
       (linspace, Response 200 (Inr \<lparr>resp_x = [Fin 0, Fin 2], resp_y = None\<rparr>))]"
  have d0: "distinct (map fst ?pend)" by simp
  have "\<forall>r. (logistic, r) \<in> set ?pend \<longrightarrow> (\<exists>m. fetchArrayAPI r = Inl m)"
    by simp
  then have "\<exists>e. \<forall>r. (e, r) \<in> set ?pend \<longrightarrow> (\<exists>m. fetchArrayAPI r = Inl m)" ..
  with four_series_join [OF d0, of ?st]
  have pending: "plotData (fetchAndSetPlotData ?st ?pend) = plotData ?st"
    by blast
  have d1: "distinct (map fst ?fail)" by simp
  have f: "first_failure (settlements ?fail) = Some ''API error: 500''"
    by (simp add: settlements_def fetchArrayAPI_def string_of_500)
  from four_series_join [OF d1, of ?st] f
  have failed: "plotData (fetchAndSetPlotData ?st ?fail) = plotData ?st"
    "plotError (fetchAndSetPlotData ?st ?fail) = Some ''API error: 500''"
    "plotLoading (fetchAndSetPlotData ?st ?fail) = False"
    by simp_all
  have d2: "distinct (map fst ?ok)" by simp
  have all: "\<forall>e. \<exists>r. (e, r) \<in> set ?ok \<and> fetchArrayAPI r = Inr (?target e)"
  proof
    fix e show "\<exists>r. (e, r) \<in> set ?ok \<and> fetchArrayAPI r = Inr (?target e)"
      by (cases e) (simp_all add: fetchArrayAPI_def)
  qed
  from four_series_join [OF d2, of ?st] all
  have "fetchAndSetPlotData ?st ?ok =
      ?st\<lparr>plotData := Some [
            \<lparr>x = resp_x (?target linspace), y = None, label = ''linspace''\<rparr>,
            \<lparr>x = resp_x (?target exp_cos), y = resp_y (?target exp_cos), label = ''exp_cos''\<rparr>,
            \<lparr>x = resp_x (?target logistic), y = resp_y (?target logistic), label = ''logistic''\<rparr>,
            \<lparr>x = resp_x (?target multi_bump), y = resp_y (?target multi_bump),
             label = ''multi_bump''\<rparr>],
         plotLoading := False, plotError := None\<rparr>"
    by blast
  then have ok: "plotData (fetchAndSetPlotData ?st ?ok) =
     Some [\<lparr>x = [Fin 0, Fin 2], y = None, label = ''linspace''\<rparr>,
           \<lparr>x = [Fin 0, Fin 2], y = Some [Fin 1, Fin 0], label = ''exp_cos''\<rparr>,
           \<lparr>x = [Fin 0, Fin 2], y = Some [Fin 3, Fin 4], label = ''logistic''\<rparr>,
           \<lparr>x = [Fin 0, Fin 2], y = Some [Fin 5, Fin 6], label = ''multi_bump''\<rparr>]"
    by simp
  from d0 pending d1 f failed d2 ok show ?thesis by simp
qed

section \<open>Equal bounds\<close>

text \<open>
  The generators as the spec has them (claim C8, first half): equal bounds and
  non-finite bounds fail with \<open>InvalidDomain\<close>, and no array is returned.
\<close>

lemma generator_rejects_invalid_domain:
  assumes "strict_eq x_min x_max \<or> \<not> isFinite x_min \<or> \<not> isFinite x_max"
  shows "generator N f x_min x_max = Inl InvalidDomain"
  using assms by (auto simp: generator_def strict_eq_def)

lemma generator_accepts_valid_domain:
  assumes "isFinite x_min" and "isFinite x_max" and "x_min \<noteq> x_max"
  shows "\<exists>r. generator N f x_min x_max = Inr r \<and> length (resp_x r) = N"
proof -
  from assms(1,2) obtain a b where "x_min = Fin a" "x_max = Fin b"
    by (meson isFinite_Fin)
  with assms(3) show ?thesis
    by (simp add: generator_def linspace_samples_def)
qed

text \<open>
  The button sends the requests only when the bounds differ (claim C8, second half, for
  the button).
\<close>

lemma execute_guard:
  assumes "step st ClickExecute = (st', sent)" and "sent \<noteq> []"
  shows "\<not> strict_eq (xMin st) (xMax st) \<and> \<not> plotLoading st \<and>
         sent = [(linspace, xMin st, xMax st), (exp_cos, xMin st, xMax st),
                 (logistic, xMin st, xMax st), (multi_bump, xMin st, xMax st)]"
  using assms by (auto simp: step_def fetchAndSetPlotData_start_def split: if_splits)

text \<open>
  The effect of the tab sends them whatever the bounds are.
\<close>

lemma tab_effect_unguarded:
  assumes "tab st \<noteq> 1"
  shows "snd (step st (SetTab 1)) =
           [(linspace, xMin st, xMax st), (exp_cos, xMin st, xMax st),
            (logistic, xMin st, xMax st), (multi_bump, xMin st, xMax st)]"
  using assms by (simp add: step_def fetchAndSetPlotData_start_def)

text \<open>
  Claim C8, second half: the plot request cannot be sent while \<open>xMin\<close> equals
  \<open>xMax\<close>. The code sends it: open the plot tab, set \<open>x_min\<close> to 1 (the button is now
  disabled, \<open>xMax\<close> being 1), leave the tab and open it again. The effect of the tab
  sends the four requests with \<open>x_min = x_max = 1\<close>. The comment of the effect says
  that it fetches on the first opening only.
\<close>

theorem reopened_tab_sends_equal_bounds:
  "run initial [SetTab 1, ChangeXMin (Fin 1), SetTab 0, SetTab 1] =
     (\<lparr>tab = 1, plotData = None, plotLoading = True, plotError = None,
       xMin = Fin 1, xMax = Fin 1\<rparr>,
      [(linspace, Fin 0, Fin 1), (exp_cos, Fin 0, Fin 1),
       (logistic, Fin 0, Fin 1), (multi_bump, Fin 0, Fin 1),
       (linspace, Fin 1, Fin 1), (exp_cos, Fin 1, Fin 1),
       (logistic, Fin 1, Fin 1), (multi_bump, Fin 1, Fin 1)]) \<and>
   strict_eq (Fin 1) (Fin 1)"
  by (simp add: initial_def step_def fetchAndSetPlotData_start_def strict_eq_def)

end
